theory Spec2Isabelle
  imports Main
begin

section \<open>Data model\<close>

text \<open>
  Go strings are byte strings: \<open>string\<close> (a list of 8-bit characters). A Go
  \<open>map[string]string\<close> is a finite map; its contents are modelled as
  \<open>string \<rightharpoonup> string\<close>, and the nil map as the empty map (reading and ranging
  over a nil map behave as over an empty one).
\<close>

type_synonym strmap = "string \<rightharpoonup> string"

text \<open>
  The struct \<open>encryptRequest\<close> of the service. The type of the public key
  (\<open>*rsa.PublicKey\<close>) is a parameter: its contents are only handed on to \<open>hybridEncrypt\<close>.
  The field \<open>values\<close> is written \<open>values_of\<close>.
\<close>

record 'pk encryptRequest =
  pubKey :: 'pk
  secretName :: string
  namespace :: string
  scope :: string
  values_of :: strmap

section \<open>Scope resolution\<close>

text \<open>
  \<open>getLabel\<close>: a switch on the scope string with a default branch;
  \<open>fmt.Sprintf("%s/%s", namespace, secretName)\<close> is concatenation around a slash.
\<close>

definition getLabel :: "'pk encryptRequest \<Rightarrow> string" where
  "getLabel req =
     (if scope req = ''cluster'' then ''''
      else if scope req = ''namespace'' then namespace req
      else namespace req @ ''/'' @ secretName req)"

text \<open>\<open>getScopeAnnotations\<close>: the contents of the map literal each branch returns.\<close>

definition getScopeAnnotations :: "string \<Rightarrow> strmap" where
  "getScopeAnnotations sc =
     (if sc = ''cluster'' then [''sealedsecrets.bitnami.com/cluster-wide'' \<mapsto> ''true'']
      else if sc = ''namespace'' then [''sealedsecrets.bitnami.com/namespace-wide'' \<mapsto> ''true'']
      else Map.empty)"

definition isScopeAnnotation :: "string \<Rightarrow> bool" where
  "isScopeAnnotation annotationKey =
     (if annotationKey = ''sealedsecrets.bitnami.com/cluster-wide''
         \<or> annotationKey = ''sealedsecrets.bitnami.com/namespace-wide''
      then True else False)"

section \<open>String primitives of the Go standard library\<close>

text \<open>
  The characters the parser tests for. The variable \<open>escapedBacktick\<close> of the handlers
  package is the two-character string backslash, backtick.
\<close>

abbreviation newline :: char where "newline \<equiv> CHR 0x0A"
abbreviation backtick :: char where "backtick \<equiv> CHR 0x60"
abbreviation backslash :: char where "backslash \<equiv> CHR 0x5C"
abbreviation equals :: char where "equals \<equiv> CHR 0x3D"

definition escapedBacktick :: string where
  "escapedBacktick = [backslash, backtick]"

text \<open>
  \<open>strings.Split(s, sep)\<close> for a one-character separator: the pieces between the
  separators, so at least one piece, and one more piece than there are separators.
\<close>

fun Split :: "string \<Rightarrow> char \<Rightarrow> string list" where
  "Split [] sep = [[]]"
| "Split (c # cs) sep =
     (if c = sep then [] # Split cs sep
      else (case Split cs sep of [] \<Rightarrow> [[c]] | l # ls \<Rightarrow> (c # l) # ls))"

text \<open>
  \<open>strings.SplitN(s, sep, 2)\<close> for a one-character separator: the string itself when
  the separator does not occur, otherwise the text before the first separator and the
  whole rest after it.
\<close>

definition SplitN2 :: "string \<Rightarrow> char \<Rightarrow> string list" where
  "SplitN2 s sep =
     (if sep \<in> set s
      then [takeWhile (\<lambda>c. c \<noteq> sep) s, tl (dropWhile (\<lambda>c. c \<noteq> sep) s)]
      else [s])"

definition HasSuffix :: "string \<Rightarrow> string \<Rightarrow> bool" where
  "HasSuffix s suffix \<longleftrightarrow>
     length suffix \<le> length s \<and> drop (length s - length suffix) s = suffix"

definition HasPrefix :: "string \<Rightarrow> string \<Rightarrow> bool" where
  "HasPrefix s prefix \<longleftrightarrow> take (length prefix) s = prefix"

text \<open>\<open>strings.CutSuffix\<close> and \<open>strings.CutPrefix\<close> return the string unchanged and false
  when the affix is absent.\<close>

definition CutSuffix :: "string \<Rightarrow> string \<Rightarrow> string \<times> bool" where
  "CutSuffix s suffix =
     (if HasSuffix s suffix then (take (length s - length suffix) s, True) else (s, False))"

definition CutPrefix :: "string \<Rightarrow> string \<Rightarrow> string \<times> bool" where
  "CutPrefix s prefix =
     (if HasPrefix s prefix then (drop (length prefix) s, True) else (s, False))"

text \<open>
  \<open>strings.ReplaceAll(s, old, new)\<close> for a non-empty \<open>old\<close> (the parser only ever
  passes \<open>escapedBacktick\<close>): the non-overlapping occurrences are replaced from left
  to right.
\<close>

fun ReplaceAll :: "string \<Rightarrow> string \<Rightarrow> string \<Rightarrow> string" where
  "ReplaceAll [] old new = []"
| "ReplaceAll (c # cs) old new =
     (if old \<noteq> [] \<and> take (length old) (c # cs) = old
      then new @ ReplaceAll (drop (length old) (c # cs)) old new
      else c # ReplaceAll cs old new)"

section \<open>Errors\<close>

text \<open>
  Go error values. \<open>New msg\<close> is \<open>errors.New(msg)\<close> or a \<open>fmt.Errorf\<close> without
  arguments; \<open>MissingEquals i\<close> is \<open>fmt.Errorf("Missing '=' at line: %v", i)\<close>;
  \<open>Wrapped msg err\<close> is \<open>fmt.Errorf(msg + ": %w", err)\<close>; \<open>StatusNotFound\<close> is a
  Kubernetes API status error with reason NotFound, \<open>StatusFailure\<close> any other failure
  of an API call. A nil error is \<open>None\<close>.
\<close>

datatype error =
    New string
  | MissingEquals nat
  | Wrapped string error
  | StatusNotFound
  | StatusFailure string

fun IsNotFound :: "error option \<Rightarrow> bool" where
  "IsNotFound (Some StatusNotFound) = True"
| "IsNotFound (Some (Wrapped msg err)) = IsNotFound (Some err)"
| "IsNotFound other = False"

section \<open>The value parser\<close>

text \<open>
  The local variables of \<open>parseKeyValuePairs\<close> that live across the iterations of its
  loop: the result map, the key of the block being read and the string builder.
\<close>

record parser =
  result :: strmap
  multilineKey :: string
  multilineValue :: string

text \<open>
  One iteration of the loop over the lines, for the line of index \<open>i\<close>: either the
  early return with an error, or the variables after the iteration.
\<close>

definition parseLine :: "nat \<Rightarrow> string \<Rightarrow> parser \<Rightarrow> error + parser" where
  "parseLine i line st =
     (if length (multilineKey st) > 0 then
        (let (line1, isEndOfBlock) =
               (if \<not> HasSuffix line escapedBacktick then CutSuffix line [backtick]
                else (line, False));
             line2 = ReplaceAll line1 escapedBacktick [backtick];
             written = multilineValue st @ [newline] @ line2
         in if isEndOfBlock
            then Inr (st\<lparr>result := (result st)(multilineKey st \<mapsto> written),
                         multilineValue := [], multilineKey := []\<rparr>)
            else Inr (st\<lparr>multilineValue := written\<rparr>))
      else
        (let parts = SplitN2 line equals in
         if length parts \<noteq> 2 then Inl (MissingEquals i)
         else
           (let (part, ok) = CutPrefix (parts ! 1) [backtick] in
            if ok then
              (let (part1, isEndOfBlock) =
                     (if \<not> HasSuffix part escapedBacktick then CutSuffix part [backtick]
                      else (part, False));
                   part2 = ReplaceAll part1 escapedBacktick [backtick];
                   written = multilineValue st @ part2
               in if isEndOfBlock
                  then Inr (st\<lparr>result := (result st)(parts ! 0 \<mapsto> written),
                               multilineValue := [], multilineKey := []\<rparr>)
                  else Inr (st\<lparr>multilineKey := parts ! 0, multilineValue := written\<rparr>))
            else Inr (st\<lparr>result := (result st)(parts ! 0 \<mapsto> parts ! 1)\<rparr>))))"

fun parseLines :: "nat \<Rightarrow> string list \<Rightarrow> parser \<Rightarrow> error + parser" where
  "parseLines i [] st = Inr st"
| "parseLines i (line # rest) st =
     (case parseLine i line st of
        Inl err \<Rightarrow> Inl err
      | Inr st' \<Rightarrow> parseLines (Suc i) rest st')"

definition parseKeyValuePairs :: "string \<Rightarrow> error + strmap" where
  "parseKeyValuePairs data =
     (let lines = Split data newline in
      if length lines = 1 \<and> length (lines ! 0) = 0 then Inl (New ''empty'')
      else
        (case parseLines 0 lines \<lparr>result = Map.empty, multilineKey = [], multilineValue = []\<rparr> of
           Inl err \<Rightarrow> Inl err
         | Inr st \<Rightarrow>
             if length (multilineKey st) \<noteq> 0 then Inl (New ''Backticked block is not closed'')
             else Inr (result st)))"

text \<open>
  What \<open>parseKeyValuePairs\<close> returns once its loop has come to the line of index \<open>i\<close>
  with the given variables: the rest of the loop over the remaining lines, and the check
  for an open block after it.
\<close>

definition parseRemaining :: "nat \<Rightarrow> string list \<Rightarrow> parser \<Rightarrow> error + strmap" where
  "parseRemaining i lines st =
     (case parseLines i lines st of
        Inl err \<Rightarrow> Inl err
      | Inr st' \<Rightarrow>
          if length (multilineKey st') \<noteq> 0 then Inl (New ''Backticked block is not closed'')
          else Inr (result st'))"

section \<open>The value parser as the specification words it\<close>

text \<open>
  A second parser, written from the words of the specification and not from the code: a
  two-state automaton (outside a block; inside a quoted block with its key and its
  buffer). It is what the code is compared with. A line outside a block is split at its
  first separator; a value that begins with a backtick opens a block; a line that ends
  with a backtick not preceded by a backslash closes the block, and that backtick is
  stripped; backslash, backtick is rendered as a backtick.
\<close>

datatype format_error = EmptyInput | MissingSeparator nat | UnterminatedValue

datatype block_state = Normal | InsideQuotedBlock string string

definition spec_closes :: "string \<Rightarrow> bool" where
  "spec_closes line \<longleftrightarrow>
     line \<noteq> [] \<and> last line = backtick \<and>
     \<not> (2 \<le> length line \<and> line ! (length line - 2) = backslash)"

fun spec_unescape :: "string \<Rightarrow> string" where
  "spec_unescape (a # b # rest) =
     (if a = backslash \<and> b = backtick then backtick # spec_unescape rest
      else a # spec_unescape (b # rest))"
| "spec_unescape rest = rest"

fun spec_line :: "nat \<Rightarrow> string \<Rightarrow> strmap \<times> block_state \<Rightarrow> format_error + strmap \<times> block_state" where
  "spec_line i line (m, Normal) =
     (if equals \<notin> set line then Inl (MissingSeparator i)
      else
        (let key = takeWhile (\<lambda>c. c \<noteq> equals) line;
             val = tl (dropWhile (\<lambda>c. c \<noteq> equals) line)
         in if val \<noteq> [] \<and> hd val = backtick then
              (if spec_closes (tl val)
               then Inr (m(key \<mapsto> spec_unescape (butlast (tl val))), Normal)
               else Inr (m, InsideQuotedBlock key (spec_unescape (tl val))))
            else Inr (m(key \<mapsto> val), Normal)))"
| "spec_line i line (m, InsideQuotedBlock key buf) =
     (if spec_closes line
      then Inr (m(key \<mapsto> buf @ [newline] @ spec_unescape (butlast line)), Normal)
      else Inr (m, InsideQuotedBlock key (buf @ [newline] @ spec_unescape line)))"

fun spec_lines :: "nat \<Rightarrow> string list \<Rightarrow> strmap \<times> block_state \<Rightarrow> format_error + strmap \<times> block_state" where
  "spec_lines i [] st = Inr st"
| "spec_lines i (line # rest) st =
     (case spec_line i line st of
        Inl err \<Rightarrow> Inl err
      | Inr st' \<Rightarrow> spec_lines (Suc i) rest st')"

definition spec_parse :: "string \<Rightarrow> format_error + strmap" where
  "spec_parse text =
     (if text = [] then Inl EmptyInput
      else
        (case spec_lines 0 (Split text newline) (Map.empty, Normal) of
           Inl err \<Rightarrow> Inl err
         | Inr (m, Normal) \<Rightarrow> Inr m
         | Inr (m, InsideQuotedBlock key buf) \<Rightarrow> Inl UnterminatedValue))"

subsection \<open>Comparing the two parsers\<close>

text \<open>
  The errors of the code that stand for the errors of the specification, and the
  variables of the loop that stand for a state of the automaton. A state is \<open>named\<close>
  when it is not inside a block whose key is empty; a run is named when every state it
  passes through is, the last one included.
\<close>

fun error_of :: "format_error \<Rightarrow> error" where
  "error_of EmptyInput = New ''empty''"
| "error_of (MissingSeparator i) = MissingEquals i"
| "error_of UnterminatedValue = New ''Backticked block is not closed''"

fun parser_of :: "strmap \<times> block_state \<Rightarrow> parser" where
  "parser_of (m, Normal) = \<lparr>result = m, multilineKey = [], multilineValue = []\<rparr>"
| "parser_of (m, InsideQuotedBlock key buf) = \<lparr>result = m, multilineKey = key, multilineValue = buf\<rparr>"

fun named :: "strmap \<times> block_state \<Rightarrow> bool" where
  "named (m, Normal) = True"
| "named (m, InsideQuotedBlock key buf) = (key \<noteq> [])"

fun named_run :: "nat \<Rightarrow> string list \<Rightarrow> strmap \<times> block_state \<Rightarrow> bool" where
  "named_run i [] s = named s"
| "named_run i (line # rest) s =
     (named s \<and> (case spec_line i line s of Inl err \<Rightarrow> True | Inr s' \<Rightarrow> named_run (Suc i) rest s'))"

section \<open>The service and its collaborators\<close>

text \<open>
  Of the struct \<open>SealedSecretService\<close> only the allow-list is read by the functions
  modelled here: \<open>annotationsToPreserve\<close> holds the keys of that set, in the order in
  which the loop of \<open>getSealedSecretAnnotations\<close> visits them.
\<close>

record SealedSecretService =
  annotationsToPreserve :: "string list"

text \<open>The struct \<open>model.CreateOpts\<close>, with the fields the handler fills in.\<close>

record CreateOpts =
  optScope :: string
  optNamespace :: string
  optSecretName :: string
  optValues :: strmap

text \<open>
  A Kubernetes secret, of which only the \<open>Data\<close> field is read. Its values are byte
  slices, which \<open>decodeSecret\<close> converts to strings byte for byte.
\<close>

record Secret =
  Data :: strmap

type_synonym mapref = nat
type_synonym heap = "strmap list"

record Metadata =
  Name :: string
  Namespace :: string
  Annotations :: mapref

record Template =
  TemplateMetadata :: Metadata

record SealedSecretSpec =
  EncryptedData :: strmap
  SpecTemplate :: Template

record SealedSecret =
  APIVersion :: string
  Kind :: string
  SecretMetadata :: Metadata
  Spec :: SealedSecretSpec

text \<open>
  What the world outside the service answers during one call of \<open>CreateSealedSecret\<close>.
  \<^item> \<open>secretsGet\<close>: the typed client's \<open>Secrets(namespace).Get\<close>. It returns a pointer
    and an error; the typed client always returns a non-nil pointer, to an empty
    object when the call fails.
  \<^item> \<open>getPublicKey\<close>: the service's method of that name, which is not among the sources.
  \<^item> \<open>hybridEncrypt\<close>: the function of that name, which is not among the sources. It
    draws fresh randomness at every call, so its outcome is indexed by the entry (the
    map key) whose value is being sealed, besides its three arguments; every entry is
    sealed at most once per request.
  \<^item> \<open>valuesOrder\<close>: the order in which the runtime ranges over the values to encrypt.
  \<^item> \<open>sealedSecretsGet\<close>: the dynamic client's \<open>Get\<close> of the existing sealed secret,
    an error or the annotations of the object.
  \<^item> \<open>yamlMarshal\<close>: \<open>yaml.Marshal\<close>, which reads the maps of the record in the heap.
\<close>

record 'pk world =
  secretsGet :: "string \<Rightarrow> string \<Rightarrow> Secret \<times> error option"
  getPublicKey :: "error + 'pk"
  hybridEncrypt :: "string \<Rightarrow> 'pk \<Rightarrow> string \<Rightarrow> string \<Rightarrow> error + string"
  valuesOrder :: "string list"
  sealedSecretsGet :: "string \<Rightarrow> string \<Rightarrow> error + strmap"
  yamlMarshal :: "heap \<Rightarrow> SealedSecret \<Rightarrow> error + string"

subsection \<open>Map objects\<close>

text \<open>
  The annotation maps are shared between the record and the code that still writes to
  them, so they live in a heap: a reference is the index of a map object, \<open>newMap\<close>
  allocates an object with the given contents, \<open>mapAt\<close> reads the object behind a
  reference.
\<close>

definition newMap :: "strmap \<Rightarrow> heap \<Rightarrow> mapref \<times> heap" where
  "newMap contents h = (length h, h @ [contents])"

definition mapAt :: "heap \<Rightarrow> mapref \<Rightarrow> strmap" where
  "mapAt h r = h ! r"

text \<open>\<open>copyStringMap\<close>: a new map object with every entry of the source.\<close>

definition copyStringMap :: "mapref \<Rightarrow> heap \<Rightarrow> mapref \<times> heap" where
  "copyStringMap source h = newMap (\<lambda>key. mapAt h source key) h"

subsection \<open>Reading the cluster\<close>

definition decodeSecret :: "strmap \<Rightarrow> strmap" where
  "decodeSecret secretData = (\<lambda>key. secretData key)"

text \<open>
  \<open>getSecretData\<close>: the error of the call is tested for NotFound only, and the secret
  is decoded in every other case.
\<close>

definition getSecretData :: "'pk world \<Rightarrow> string \<Rightarrow> string \<Rightarrow> error + strmap" where
  "getSecretData w ns name =
     (case secretsGet w ns name of
        (secret, err) \<Rightarrow>
          if IsNotFound err then Inr Map.empty
          else Inr (decodeSecret (Data secret)))"

text \<open>The loop of \<open>getSealedSecretAnnotations\<close> over the keys of the allow-list.\<close>

fun preserveLoop :: "string list \<Rightarrow> strmap \<Rightarrow> strmap \<Rightarrow> strmap" where
  "preserveLoop [] annotations preserved = preserved"
| "preserveLoop (key # keys) annotations preserved =
     (case annotations key of
        Some val \<Rightarrow> preserveLoop keys annotations (preserved(key \<mapsto> val))
      | None \<Rightarrow> preserveLoop keys annotations preserved)"

definition getSealedSecretAnnotations ::
  "SealedSecretService \<Rightarrow> 'pk world \<Rightarrow> string \<Rightarrow> string \<Rightarrow> error + strmap" where
  "getSealedSecretAnnotations s w ns name =
     (if length (annotationsToPreserve s) = 0 then Inr Map.empty
      else
        (case sealedSecretsGet w ns name of
           Inl err \<Rightarrow> if IsNotFound (Some err) then Inr Map.empty else Inl err
         | Inr annotations \<Rightarrow>
             if annotations = Map.empty then Inr Map.empty
             else Inr (preserveLoop (annotationsToPreserve s) annotations Map.empty)))"

subsection \<open>Sealing\<close>

text \<open>
  The loop of \<open>encryptValues\<close> over the entries of \<open>req.values\<close>, in the order the
  runtime picks; a key of that order which the map does not hold is passed over.
\<close>

fun encryptLoop ::
  "'pk world \<Rightarrow> 'pk encryptRequest \<Rightarrow> string list \<Rightarrow> strmap \<Rightarrow> error + strmap" where
  "encryptLoop w req [] encryptedData = Inr encryptedData"
| "encryptLoop w req (key # keys) encryptedData =
     (case values_of req key of
        None \<Rightarrow> encryptLoop w req keys encryptedData
      | Some val \<Rightarrow>
          (case hybridEncrypt w key (pubKey req) val (getLabel req) of
             Inl err \<Rightarrow> Inl (Wrapped ''failed to encrypt value'' err)
           | Inr enc \<Rightarrow> encryptLoop w req keys (encryptedData(key \<mapsto> enc))))"

definition encryptValues :: "'pk world \<Rightarrow> 'pk encryptRequest \<Rightarrow> error + strmap" where
  "encryptValues w req = encryptLoop w req (valuesOrder w) Map.empty"

text \<open>
  The two loops that fill \<open>valuesToEncrypt\<close>: every entry of the existing data is
  assigned first, then every entry of the submitted values. Each loop assigns each of
  its keys once, so the order of the visits does not show in the map.
\<close>

definition valuesToEncrypt :: "strmap \<Rightarrow> strmap \<Rightarrow> strmap" where
  "valuesToEncrypt existingData submitted = (Map.empty ++ existingData) ++ submitted"

text \<open>
  The loop that overlays the preserved annotations on the map object behind
  \<open>sealedSecretAnnotations\<close>: a scope annotation is skipped, every other entry is
  assigned. Each key is assigned at most once.
\<close>

definition overlayPreserved :: "mapref \<Rightarrow> strmap \<Rightarrow> heap \<Rightarrow> heap" where
  "overlayPreserved r preservedAnnotations h =
     h[r := (\<lambda>key. case preservedAnnotations key of
                      None \<Rightarrow> (h ! r) key
                    | Some val \<Rightarrow> if isScopeAnnotation key then (h ! r) key else Some val)]"

text \<open>The struct literal that \<open>CreateSealedSecret\<close> hands to \<open>encryptValues\<close>.\<close>

definition encryptRequestFor :: "'pk \<Rightarrow> CreateOpts \<Rightarrow> strmap \<Rightarrow> 'pk encryptRequest" where
  "encryptRequestFor key opts existingData =
     \<lparr>pubKey = key, secretName = optSecretName opts, namespace = optNamespace opts,
      scope = optScope opts, values_of = valuesToEncrypt existingData (optValues opts)\<rparr>"

text \<open>
  \<open>CreateSealedSecret\<close> up to the record it assembles (the local variable
  \<open>sealedSecret\<close>), with the heap that holds the record's annotation maps. The map
  that \<open>getScopeAnnotations\<close> returns is a new object at every call (a map literal),
  and \<open>copyStringMap\<close> allocates another one; the record's metadata refers to the
  copy, its template to the original.
\<close>

definition CreateSealedSecret_record ::
  "SealedSecretService \<Rightarrow> 'pk world \<Rightarrow> CreateOpts \<Rightarrow> heap \<Rightarrow> error + SealedSecret \<times> heap" where
  "CreateSealedSecret_record s w opts h =
     (case getSecretData w (optNamespace opts) (optSecretName opts) of
        Inl err \<Rightarrow> Inl (Wrapped ''failed to get existing secret data'' err)
      | Inr existingData \<Rightarrow>
          (case getPublicKey w of
             Inl err \<Rightarrow> Inl (Wrapped ''failed to get public key'' err)
           | Inr key \<Rightarrow>
               (let req = encryptRequestFor key opts existingData
                in case encryptValues w req of
                     Inl err \<Rightarrow> Inl err
                   | Inr encryptedData \<Rightarrow>
                       (case newMap (getScopeAnnotations (scope req)) h of
                          (scopeAnnotations, h1) \<Rightarrow>
                            (case copyStringMap scopeAnnotations h1 of
                               (sealedSecretAnnotations, h2) \<Rightarrow>
                                 (case getSealedSecretAnnotations s w (optNamespace opts) (optSecretName opts) of
                                    Inl err \<Rightarrow>
                                      Inl (Wrapped ''failed to get existing sealed-secret annotations'' err)
                                  | Inr preservedAnnotations \<Rightarrow>
                                      Inr (\<lparr>APIVersion = ''bitnami.com/v1alpha1'',
                                            Kind = ''SealedSecret'',
                                            SecretMetadata =
                                              \<lparr>Name = secretName req, Namespace = namespace req,
                                               Annotations = sealedSecretAnnotations\<rparr>,
                                            Spec =
                                              \<lparr>EncryptedData = encryptedData,
                                               SpecTemplate =
                                                 \<lparr>TemplateMetadata =
                                                    \<lparr>Name = secretName req, Namespace = namespace req,
                                                     Annotations = scopeAnnotations\<rparr>\<rparr>\<rparr>\<rparr>,
                                           overlayPreserved sealedSecretAnnotations preservedAnnotations h2)))))))"

text \<open>\<open>CreateSealedSecret\<close>: the record is rendered by \<open>yaml.Marshal\<close>.\<close>

definition CreateSealedSecret ::
  "SealedSecretService \<Rightarrow> 'pk world \<Rightarrow> CreateOpts \<Rightarrow> heap \<Rightarrow> error + string" where
  "CreateSealedSecret s w opts h =
     (case CreateSealedSecret_record s w opts h of
        Inl err \<Rightarrow> Inl err
      | Inr (sealedSecret, h') \<Rightarrow>
          (case yamlMarshal w h' sealedSecret of
             Inl err \<Rightarrow> Inl (Wrapped ''failed to marshal sealed secret to YAML'' err)
           | Inr yamlData \<Rightarrow> Inr yamlData))"

section \<open>A sample run\<close>

text \<open>
  A service that preserves the annotation \<open>owner\<close> and, to show that the allow-list
  cannot bring a scope marker back, the namespace-wide marker; a cluster that holds the
  secret \<open>{a: 1, b: 2}\<close> and a sealed secret annotated as namespace-wide and owned by
  team-x; and a strict request that submits \<open>{b: 3, c: 4}\<close>.
\<close>

definition sample_service :: SealedSecretService where
  "sample_service =
     \<lparr>annotationsToPreserve = [''owner'', ''sealedsecrets.bitnami.com/namespace-wide'']\<rparr>"

definition sample_world :: "unit world" where
  "sample_world =
     \<lparr>secretsGet = (\<lambda>ns name. (\<lparr>Data = [''a'' \<mapsto> ''1'', ''b'' \<mapsto> ''2'']\<rparr>, None)),
      getPublicKey = Inr (),
      hybridEncrypt = (\<lambda>key pk val label. Inr (''sealed['' @ label @ '']'' @ val)),
      valuesOrder = [''c'', ''a'', ''b''],
      sealedSecretsGet =
        (\<lambda>ns name. Inr [''owner'' \<mapsto> ''team-x'',
                         ''sealedsecrets.bitnami.com/namespace-wide'' \<mapsto> ''true'',
                         ''note'' \<mapsto> ''temporary'']),
      yamlMarshal = (\<lambda>h sealedSecret. Inr (Kind sealedSecret))\<rparr>"

definition sample_opts :: CreateOpts where
  "sample_opts =
     \<lparr>optScope = ''strict'', optNamespace = ''prod'', optSecretName = ''db'',
      optValues = [''b'' \<mapsto> ''3'', ''c'' \<mapsto> ''4'']\<rparr>"

text \<open>The same world, except that sealing the value of \<open>a\<close> fails.\<close>

definition failing_world :: "unit world" where
  "failing_world =
     sample_world\<lparr>hybridEncrypt :=
       (\<lambda>key pk val label.
          if key = ''a'' then Inl (New ''crypto/rsa: message too long for RSA key size'')
          else Inr (''sealed['' @ label @ '']'' @ val))\<rparr>"

text \<open>The same world, except that reading the secret fails for a reason other than NotFound.\<close>

definition unreachable_world :: "unit world" where
  "unreachable_world =
     sample_world\<lparr>secretsGet :=
       (\<lambda>ns name. (\<lparr>Data = Map.empty\<rparr>, Some (StatusFailure ''connection refused'')))\<rparr>"

section \<open>Properties of scope resolution\<close>

lemma slash_split_unique:
  assumes "a @ ''/'' @ b = c @ ''/'' @ d"
    and "CHR ''/'' \<notin> set a" and "CHR ''/'' \<notin> set c"
  shows "a = c \<and> b = d"
proof -
  have ta: "takeWhile (\<lambda>x. x \<noteq> CHR ''/'') (a @ ''/'' @ b) = a"
    using assms(2) by (subst takeWhile_append2) auto
  have tc: "takeWhile (\<lambda>x. x \<noteq> CHR ''/'') (c @ ''/'' @ d) = c"
    using assms(3) by (subst takeWhile_append2) auto
  from ta tc assms(1) have "a = c" by simp
  with assms(1) show ?thesis by simp
qed

text \<open>
  C7. Scope resolution mapping: for scope "cluster" the label is empty and the
  annotations are exactly the cluster-wide marker set to "true"; for scope "namespace"
  the label is the namespace and the annotations are exactly the namespace-wide marker
  set to "true"; for every other scope string (so for "strict" and for any unrecognised
  value) the label is namespace, slash, secret name, and the annotation set is empty.
\<close>

theorem C7_scope_resolution:
  "(scope req = ''cluster'' \<longrightarrow>
      getLabel req = '''' \<and>
      getScopeAnnotations (scope req) = [''sealedsecrets.bitnami.com/cluster-wide'' \<mapsto> ''true''])
   \<and> (scope req = ''namespace'' \<longrightarrow>
      getLabel req = namespace req \<and>
      getScopeAnnotations (scope req) = [''sealedsecrets.bitnami.com/namespace-wide'' \<mapsto> ''true''])
   \<and> (scope req \<noteq> ''cluster'' \<and> scope req \<noteq> ''namespace'' \<longrightarrow>
      getLabel req = namespace req @ ''/'' @ secretName req \<and>
      getScopeAnnotations (scope req) = Map.empty)"
  by (simp add: getLabel_def getScopeAnnotations_def)

theorem C7_scope_resolution_witness:
  "getLabel \<lparr>pubKey = (), secretName = ''db'', namespace = ''prod'', scope = ''cluster'', values_of = Map.empty\<rparr> = ''''
   \<and> getScopeAnnotations ''cluster'' = [''sealedsecrets.bitnami.com/cluster-wide'' \<mapsto> ''true'']
   \<and> getLabel \<lparr>pubKey = (), secretName = ''db'', namespace = ''prod'', scope = ''namespace'', values_of = Map.empty\<rparr> = ''prod''
   \<and> getScopeAnnotations ''namespace'' = [''sealedsecrets.bitnami.com/namespace-wide'' \<mapsto> ''true'']
   \<and> getLabel \<lparr>pubKey = (), secretName = ''db'', namespace = ''prod'', scope = ''strict'', values_of = Map.empty\<rparr> = ''prod/db''
   \<and> getScopeAnnotations ''strict'' = Map.empty
   \<and> getLabel \<lparr>pubKey = (), secretName = ''db'', namespace = ''prod'', scope = ''bogus'', values_of = Map.empty\<rparr> = ''prod/db''
   \<and> getScopeAnnotations ''bogus'' = Map.empty"
  using
    C7_scope_resolution [of "\<lparr>pubKey = (), secretName = ''db'', namespace = ''prod'', scope = ''cluster'', values_of = Map.empty\<rparr>"]
    C7_scope_resolution [of "\<lparr>pubKey = (), secretName = ''db'', namespace = ''prod'', scope = ''namespace'', values_of = Map.empty\<rparr>"]
    C7_scope_resolution [of "\<lparr>pubKey = (), secretName = ''db'', namespace = ''prod'', scope = ''strict'', values_of = Map.empty\<rparr>"]
    C7_scope_resolution [of "\<lparr>pubKey = (), secretName = ''db'', namespace = ''prod'', scope = ''bogus'', values_of = Map.empty\<rparr>"]
  by simp

text \<open>
  C1 (as stated it fails). Two namespace-scoped requests for the same namespace get the
  same label whatever their secret names, because the namespace-wide label is the
  namespace alone; and two strict requests can collide when a slash occurs in a
  namespace, since the label is a plain concatenation around a slash.
\<close>

theorem C1_label_distinctness_counterexample:
  "secretName \<lparr>pubKey = (), secretName = ''db'', namespace = ''prod'', scope = ''namespace'', values_of = Map.empty\<rparr>
     \<noteq> secretName \<lparr>pubKey = (), secretName = ''cache'', namespace = ''prod'', scope = ''namespace'', values_of = Map.empty\<rparr>
   \<and> getLabel \<lparr>pubKey = (), secretName = ''db'', namespace = ''prod'', scope = ''namespace'', values_of = Map.empty\<rparr>
     = getLabel \<lparr>pubKey = (), secretName = ''cache'', namespace = ''prod'', scope = ''namespace'', values_of = Map.empty\<rparr>
   \<and> namespace \<lparr>pubKey = (), secretName = ''c'', namespace = ''a/b'', scope = ''strict'', values_of = Map.empty\<rparr>
     \<noteq> namespace \<lparr>pubKey = (), secretName = ''b/c'', namespace = ''a'', scope = ''strict'', values_of = Map.empty\<rparr>
   \<and> getLabel \<lparr>pubKey = (), secretName = ''c'', namespace = ''a/b'', scope = ''strict'', values_of = Map.empty\<rparr>
     = getLabel \<lparr>pubKey = (), secretName = ''b/c'', namespace = ''a'', scope = ''strict'', values_of = Map.empty\<rparr>"
  by (simp add: getLabel_def)

text \<open>
  C1 (amended). For two requests whose namespaces contain no slash: if both are
  namespace-scoped, their labels are equal exactly when their namespaces are equal (the
  secret name is not part of the label); if both are strict (any scope string other than
  "cluster" and "namespace"), their labels are equal exactly when both namespace and
  secret name are equal, so they differ whenever namespace or secret name differ; and a
  namespace-scoped and a strict request never share a label.
\<close>

theorem C1_label_distinctness_amended:
  assumes "CHR ''/'' \<notin> set (namespace r1)" and "CHR ''/'' \<notin> set (namespace r2)"
  shows "(scope r1 = ''namespace'' \<and> scope r2 = ''namespace'' \<longrightarrow>
            (getLabel r1 = getLabel r2) = (namespace r1 = namespace r2))
       \<and> (scope r1 \<noteq> ''cluster'' \<and> scope r1 \<noteq> ''namespace'' \<and>
          scope r2 \<noteq> ''cluster'' \<and> scope r2 \<noteq> ''namespace'' \<longrightarrow>
            (getLabel r1 = getLabel r2) = (namespace r1 = namespace r2 \<and> secretName r1 = secretName r2))
       \<and> (scope r1 = ''namespace'' \<and> scope r2 \<noteq> ''cluster'' \<and> scope r2 \<noteq> ''namespace'' \<longrightarrow>
            getLabel r1 \<noteq> getLabel r2)"
proof (intro conjI impI)
  assume "scope r1 = ''namespace'' \<and> scope r2 = ''namespace''"
  then show "(getLabel r1 = getLabel r2) = (namespace r1 = namespace r2)"
    by (simp add: getLabel_def)
next
  assume s: "scope r1 \<noteq> ''cluster'' \<and> scope r1 \<noteq> ''namespace'' \<and>
             scope r2 \<noteq> ''cluster'' \<and> scope r2 \<noteq> ''namespace''"
  show "(getLabel r1 = getLabel r2) = (namespace r1 = namespace r2 \<and> secretName r1 = secretName r2)"
  proof
    assume "getLabel r1 = getLabel r2"
    with s have "namespace r1 @ ''/'' @ secretName r1 = namespace r2 @ ''/'' @ secretName r2"
      by (simp add: getLabel_def)
    then show "namespace r1 = namespace r2 \<and> secretName r1 = secretName r2"
      using assms by (rule slash_split_unique)
  next
    assume "namespace r1 = namespace r2 \<and> secretName r1 = secretName r2"
    with s show "getLabel r1 = getLabel r2" by (simp add: getLabel_def)
  qed
next
  assume s: "scope r1 = ''namespace'' \<and> scope r2 \<noteq> ''cluster'' \<and> scope r2 \<noteq> ''namespace''"
  show "getLabel r1 \<noteq> getLabel r2"
  proof
    assume "getLabel r1 = getLabel r2"
    with s have "namespace r1 = namespace r2 @ ''/'' @ secretName r2"
      by (simp add: getLabel_def)
    then have "CHR ''/'' \<in> set (namespace r1)" by simp
    with assms(1) show False by contradiction
  qed
qed

theorem C1_label_distinctness_amended_witness:
  "CHR ''/'' \<notin> set ''prod'' \<and> CHR ''/'' \<notin> set ''stage''
   \<and> getLabel \<lparr>pubKey = (), secretName = ''db'', namespace = ''prod'', scope = ''strict'', values_of = Map.empty\<rparr>
     \<noteq> getLabel \<lparr>pubKey = (), secretName = ''cache'', namespace = ''prod'', scope = ''strict'', values_of = Map.empty\<rparr>
   \<and> getLabel \<lparr>pubKey = (), secretName = ''db'', namespace = ''prod'', scope = ''namespace'', values_of = Map.empty\<rparr>
     \<noteq> getLabel \<lparr>pubKey = (), secretName = ''db'', namespace = ''stage'', scope = ''namespace'', values_of = Map.empty\<rparr>
   \<and> getLabel \<lparr>pubKey = (), secretName = ''db'', namespace = ''prod'', scope = ''namespace'', values_of = Map.empty\<rparr>
     \<noteq> getLabel \<lparr>pubKey = (), secretName = ''db'', namespace = ''prod'', scope = ''strict'', values_of = Map.empty\<rparr>"
  using
    C1_label_distinctness_amended
      [of "\<lparr>pubKey = (), secretName = ''db'', namespace = ''prod'', scope = ''strict'', values_of = Map.empty\<rparr>"
          "\<lparr>pubKey = (), secretName = ''cache'', namespace = ''prod'', scope = ''strict'', values_of = Map.empty\<rparr>"]
    C1_label_distinctness_amended
      [of "\<lparr>pubKey = (), secretName = ''db'', namespace = ''prod'', scope = ''namespace'', values_of = Map.empty\<rparr>"
          "\<lparr>pubKey = (), secretName = ''db'', namespace = ''stage'', scope = ''namespace'', values_of = Map.empty\<rparr>"]
    C1_label_distinctness_amended
      [of "\<lparr>pubKey = (), secretName = ''db'', namespace = ''prod'', scope = ''namespace'', values_of = Map.empty\<rparr>"
          "\<lparr>pubKey = (), secretName = ''db'', namespace = ''prod'', scope = ''strict'', values_of = Map.empty\<rparr>"]
  by simp

section \<open>Properties of the sealing pipeline\<close>

lemma valuesToEncrypt_apply:
  "valuesToEncrypt existingData submitted key =
     (case submitted key of Some v \<Rightarrow> Some v | None \<Rightarrow> existingData key)"
  by (simp add: valuesToEncrypt_def map_add_def split: option.splits)

lemma dom_valuesToEncrypt:
  "dom (valuesToEncrypt existingData submitted) = dom existingData \<union> dom submitted"
  by (auto simp: valuesToEncrypt_def)

lemma encryptLoop_success:
  "encryptLoop w req keys acc = Inr out \<Longrightarrow>
   out key =
     (if key \<in> set keys \<and> values_of req key \<noteq> None
      then (case hybridEncrypt w key (pubKey req) (the (values_of req key)) (getLabel req) of
              Inr enc \<Rightarrow> Some enc | Inl err \<Rightarrow> None)
      else acc key)
   \<and> (key \<in> set keys \<longrightarrow> values_of req key \<noteq> None \<longrightarrow>
        (\<exists>enc. hybridEncrypt w key (pubKey req) (the (values_of req key)) (getLabel req) = Inr enc))"
proof (induction keys arbitrary: acc)
  case Nil
  then show ?case by simp
next
  case (Cons k keys)
  show ?case
  proof (cases "values_of req k")
    case None
    with Cons.prems have "encryptLoop w req keys acc = Inr out" by simp
    from Cons.IH [OF this] None show ?thesis by auto
  next
    case (Some v)
    with Cons.prems obtain enc where
      e: "hybridEncrypt w k (pubKey req) v (getLabel req) = Inr enc"
      and r: "encryptLoop w req keys (acc(k \<mapsto> enc)) = Inr out"
      by (auto split: sum.splits)
    from Cons.IH [OF r] Some e show ?thesis by (auto split: sum.splits)
  qed
qed

lemma encryptLoop_failure:
  "key \<in> set keys \<Longrightarrow> values_of req key = Some v \<Longrightarrow>
   hybridEncrypt w key (pubKey req) v (getLabel req) = Inl err \<Longrightarrow>
   \<exists>k' v' err'. k' \<in> set keys \<and> values_of req k' = Some v' \<and>
      hybridEncrypt w k' (pubKey req) v' (getLabel req) = Inl err' \<and>
      encryptLoop w req keys acc = Inl (Wrapped ''failed to encrypt value'' err')"
proof (induction keys arbitrary: acc)
  case Nil
  then show ?case by simp
next
  case (Cons k keys)
  show ?case
  proof (cases "values_of req k")
    case None
    with Cons.prems have "key \<in> set keys" by auto
    from Cons.IH [OF this Cons.prems(2,3), of acc] obtain k' v' err' where
      "k' \<in> set keys" "values_of req k' = Some v'"
      "hybridEncrypt w k' (pubKey req) v' (getLabel req) = Inl err'"
      "encryptLoop w req keys acc = Inl (Wrapped ''failed to encrypt value'' err')"
      by blast
    with None show ?thesis by (intro exI [of _ k'] exI [of _ v'] exI [of _ err']) simp
  next
    case (Some vk)
    show ?thesis
    proof (cases "hybridEncrypt w k (pubKey req) vk (getLabel req)")
      case (Inl e)
      with Some show ?thesis by (intro exI [of _ k] exI [of _ vk] exI [of _ e]) simp
    next
      case (Inr enc)
      with Some Cons.prems have "key \<in> set keys" by auto
      from Cons.IH [OF this Cons.prems(2,3), of "acc(k \<mapsto> enc)"] obtain k' v' err' where
        "k' \<in> set keys" "values_of req k' = Some v'"
        "hybridEncrypt w k' (pubKey req) v' (getLabel req) = Inl err'"
        "encryptLoop w req keys (acc(k \<mapsto> enc)) = Inl (Wrapped ''failed to encrypt value'' err')"
        by blast
      with Some Inr show ?thesis by (intro exI [of _ k'] exI [of _ v'] exI [of _ err']) simp
    qed
  qed
qed

lemma preserveLoop_apply:
  "preserveLoop keys annotations preserved key =
     (if key \<in> set keys \<and> annotations key \<noteq> None then annotations key else preserved key)"
  by (induction keys arbitrary: preserved) (auto split: option.splits)

lemma getSealedSecretAnnotations_Inr:
  assumes "getSealedSecretAnnotations s w ns name = Inr preserved"
  shows "preserved key =
     (if key \<in> set (annotationsToPreserve s)
      then (case sealedSecretsGet w ns name of Inr stored \<Rightarrow> stored key | Inl err \<Rightarrow> None)
      else None)"
proof (cases "annotationsToPreserve s = []")
  case True
  with assms show ?thesis by (auto simp: getSealedSecretAnnotations_def)
next
  case False
  show ?thesis
  proof (cases "sealedSecretsGet w ns name")
    case (Inl err)
    with assms False show ?thesis
      by (auto simp: getSealedSecretAnnotations_def split: if_splits)
  next
    case (Inr stored)
    with assms False show ?thesis
      by (auto simp: getSealedSecretAnnotations_def preserveLoop_apply split: if_splits)
  qed
qed

lemma CreateSealedSecret_record_Inr:
  assumes "CreateSealedSecret_record s w opts h = Inr (ss, h')"
  shows "\<exists>existingData key encryptedData preservedAnnotations.
      getSecretData w (optNamespace opts) (optSecretName opts) = Inr existingData
    \<and> getPublicKey w = Inr key
    \<and> encryptValues w (encryptRequestFor key opts existingData) = Inr encryptedData
    \<and> getSealedSecretAnnotations s w (optNamespace opts) (optSecretName opts) = Inr preservedAnnotations
    \<and> EncryptedData (Spec ss) = encryptedData
    \<and> Annotations (SecretMetadata ss) = Suc (length h)
    \<and> Annotations (TemplateMetadata (SpecTemplate (Spec ss))) = length h
    \<and> h' = overlayPreserved (Suc (length h)) preservedAnnotations
             (h @ [getScopeAnnotations (optScope opts), getScopeAnnotations (optScope opts)])"
  using assms
  by (auto simp: CreateSealedSecret_record_def Let_def newMap_def copyStringMap_def mapAt_def
           nth_append encryptRequestFor_def split: sum.splits prod.splits)

lemma CreateSealedSecret_Inr:
  assumes "CreateSealedSecret s w opts h = Inr yamlData"
  shows "\<exists>ss h'. CreateSealedSecret_record s w opts h = Inr (ss, h') \<and> yamlMarshal w h' ss = Inr yamlData"
  using assms by (auto simp: CreateSealedSecret_def split: sum.splits prod.splits)

lemma getScopeAnnotations_keys:
  "\<not> isScopeAnnotation key \<Longrightarrow> getScopeAnnotations sc key = None"
  by (auto simp: getScopeAnnotations_def isScopeAnnotation_def split: if_splits)

lemma nth_two_appended:
  "(h @ [a, b]) ! length h = a" "(h @ [a, b]) ! Suc (length h) = b"
  using nth_append_length_plus [of h "[a, b]" 0] nth_append_length_plus [of h "[a, b]" 1]
  by simp_all

lemma overlayPreserved_heap:
  "overlayPreserved (Suc (length h)) p (h @ [a, b]) =
     h @ [a, (\<lambda>key. case p key of None \<Rightarrow> b key
                     | Some val \<Rightarrow> if isScopeAnnotation key then b key else Some val)]"
  by (simp add: overlayPreserved_def list_update_append nth_two_appended
        cong: option.case_cong if_cong)

text \<open>
  C2. Scope-control annotation invariant. Whenever \<open>CreateSealedSecret\<close> returns a
  manifest, it is the rendering of a record whose metadata annotations hold, under each
  of the two reserved scope-control keys, exactly what \<open>getScopeAnnotations\<close> computes
  from the scope of the request, whatever the stored annotations and the allow-list say;
  under every other key that is on the allow-list, the stored annotation verbatim; and
  nothing under any other key. The stored annotation set is what the read of the
  existing sealed secret returns (nothing when there is none).
\<close>

theorem C2_scope_control_annotations:
  assumes "CreateSealedSecret s w opts h = Inr yamlData"
  shows "\<exists>sealedSecret h'.
      CreateSealedSecret_record s w opts h = Inr (sealedSecret, h')
    \<and> yamlMarshal w h' sealedSecret = Inr yamlData
    \<and> (\<forall>key. mapAt h' (Annotations (SecretMetadata sealedSecret)) key =
         (if isScopeAnnotation key then getScopeAnnotations (optScope opts) key
          else if key \<in> set (annotationsToPreserve s)
          then (case sealedSecretsGet w (optNamespace opts) (optSecretName opts) of
                  Inr stored \<Rightarrow> stored key
                | Inl err \<Rightarrow> None)
          else None))"
proof -
  from CreateSealedSecret_Inr [OF assms] obtain ss h' where
    r: "CreateSealedSecret_record s w opts h = Inr (ss, h')"
    and y: "yamlMarshal w h' ss = Inr yamlData"
    by blast
  from CreateSealedSecret_record_Inr [OF r] obtain preserved where
    p: "getSealedSecretAnnotations s w (optNamespace opts) (optSecretName opts) = Inr preserved"
    and a: "Annotations (SecretMetadata ss) = Suc (length h)"
    and h': "h' = overlayPreserved (Suc (length h)) preserved
             (h @ [getScopeAnnotations (optScope opts), getScopeAnnotations (optScope opts)])"
    by blast
  have "mapAt h' (Annotations (SecretMetadata ss)) key =
         (if isScopeAnnotation key then getScopeAnnotations (optScope opts) key
          else if key \<in> set (annotationsToPreserve s)
          then (case sealedSecretsGet w (optNamespace opts) (optSecretName opts) of
                  Inr stored \<Rightarrow> stored key
                | Inl err \<Rightarrow> None)
          else None)" for key
  proof -
    have m: "mapAt h' (Annotations (SecretMetadata ss)) key =
        (case preserved key of None \<Rightarrow> getScopeAnnotations (optScope opts) key
         | Some val \<Rightarrow> if isScopeAnnotation key then getScopeAnnotations (optScope opts) key
                        else Some val)"
      by (simp add: a h' overlayPreserved_heap mapAt_def nth_two_appended)
    show ?thesis
      unfolding m getSealedSecretAnnotations_Inr [OF p, of key]
      by (auto simp: getScopeAnnotations_keys split: option.splits sum.splits)
  qed
  with r y show ?thesis by blast
qed

text \<open>
  C10. Preserved annotations never reach the template. Whenever \<open>CreateSealedSecret\<close>
  returns a manifest, it is the rendering of a record whose template annotations are
  exactly the scope annotations of the request; the template and the top-level metadata
  refer to two different map objects, and the call leaves behind the map objects that
  existed before, unchanged, followed by these two: the overlay has written to the copy
  only.
\<close>

theorem C10_template_annotations:
  assumes "CreateSealedSecret s w opts h = Inr yamlData"
  shows "\<exists>sealedSecret h'.
      CreateSealedSecret_record s w opts h = Inr (sealedSecret, h')
    \<and> yamlMarshal w h' sealedSecret = Inr yamlData
    \<and> mapAt h' (Annotations (TemplateMetadata (SpecTemplate (Spec sealedSecret))))
        = getScopeAnnotations (optScope opts)
    \<and> Annotations (TemplateMetadata (SpecTemplate (Spec sealedSecret)))
        \<noteq> Annotations (SecretMetadata sealedSecret)
    \<and> h' = h @ [getScopeAnnotations (optScope opts),
                 mapAt h' (Annotations (SecretMetadata sealedSecret))]"
proof -
  from CreateSealedSecret_Inr [OF assms] obtain ss h' where
    r: "CreateSealedSecret_record s w opts h = Inr (ss, h')"
    and y: "yamlMarshal w h' ss = Inr yamlData"
    by blast
  from CreateSealedSecret_record_Inr [OF r] obtain preserved where
    a: "Annotations (SecretMetadata ss) = Suc (length h)"
    and t: "Annotations (TemplateMetadata (SpecTemplate (Spec ss))) = length h"
    and h': "h' = overlayPreserved (Suc (length h)) preserved
             (h @ [getScopeAnnotations (optScope opts), getScopeAnnotations (optScope opts)])"
    by blast
  have "mapAt h' (Annotations (TemplateMetadata (SpecTemplate (Spec ss))))
          = getScopeAnnotations (optScope opts)"
    by (simp add: t h' overlayPreserved_heap mapAt_def nth_two_appended)
  moreover have "Annotations (TemplateMetadata (SpecTemplate (Spec ss)))
          \<noteq> Annotations (SecretMetadata ss)"
    by (simp add: a t)
  moreover have "h' = h @ [getScopeAnnotations (optScope opts),
                 mapAt h' (Annotations (SecretMetadata ss))]"
    by (simp add: a h' overlayPreserved_heap mapAt_def nth_two_appended)
  ultimately show ?thesis using r y by blast
qed

text \<open>
  C4. Atomic failure of sealing. When the existing data has been read and the public key
  fetched, the runtime ranges over the keys of the merged values, and sealing the value
  of some merged entry fails, then \<open>CreateSealedSecret\<close> returns an error (the wrapped
  error of a failed encryption) and so neither a record nor a manifest.
\<close>

theorem C4_atomic_failure:
  assumes "getSecretData w (optNamespace opts) (optSecretName opts) = Inr existingData"
    and "getPublicKey w = Inr key"
    and "set (valuesOrder w) = dom (valuesToEncrypt existingData (optValues opts))"
    and "valuesToEncrypt existingData (optValues opts) k = Some v"
    and "hybridEncrypt w k key v (getLabel (encryptRequestFor key opts existingData)) = Inl err"
  shows "\<exists>err'. CreateSealedSecret_record s w opts h = Inl (Wrapped ''failed to encrypt value'' err')
             \<and> CreateSealedSecret s w opts h = Inl (Wrapped ''failed to encrypt value'' err')"
proof -
  let ?req = "encryptRequestFor key opts existingData"
  have v: "values_of ?req k = Some v" and pk: "pubKey ?req = key"
    using assms(4) by (simp_all add: encryptRequestFor_def)
  have "k \<in> set (valuesOrder w)" using assms(3,4) by auto
  from encryptLoop_failure [of k "valuesOrder w" ?req v w err Map.empty, OF this v]
    assms(5) pk
  obtain err' where "encryptValues w ?req = Inl (Wrapped ''failed to encrypt value'' err')"
    by (auto simp: encryptValues_def)
  with assms(1,2) have "CreateSealedSecret_record s w opts h = Inl (Wrapped ''failed to encrypt value'' err')"
    by (simp add: CreateSealedSecret_record_def)
  then show ?thesis by (simp add: CreateSealedSecret_def)
qed

text \<open>
  C8. Plaintext merge. The values to encrypt are the union of the existing and the
  submitted mapping: a submitted entry wins, an entry that only the existing mapping
  holds is carried through unchanged. They are what gets encrypted: when the call
  assembles a record, its encrypted data has exactly the merged keys, each with the
  sealed form of its merged value.
\<close>

theorem C8_plaintext_merge:
  "dom (valuesToEncrypt existingData submitted) = dom existingData \<union> dom submitted
   \<and> (\<forall>key val. submitted key = Some val \<longrightarrow> valuesToEncrypt existingData submitted key = Some val)
   \<and> (\<forall>key. submitted key = None \<longrightarrow> valuesToEncrypt existingData submitted key = existingData key)
   \<and> (getSecretData w (optNamespace opts) (optSecretName opts) = Inr existingData
        \<and> optValues opts = submitted
        \<and> getPublicKey w = Inr pk
        \<and> set (valuesOrder w) = dom (valuesToEncrypt existingData submitted)
        \<and> CreateSealedSecret_record s w opts h = Inr (sealedSecret, h')
       \<longrightarrow> dom (EncryptedData (Spec sealedSecret)) = dom existingData \<union> dom submitted
         \<and> (\<forall>key val. valuesToEncrypt existingData submitted key = Some val \<longrightarrow>
               (\<exists>enc. hybridEncrypt w key pk val (getLabel (encryptRequestFor pk opts existingData)) = Inr enc
                    \<and> EncryptedData (Spec sealedSecret) key = Some enc)))"
proof (intro conjI impI allI)
  show "dom (valuesToEncrypt existingData submitted) = dom existingData \<union> dom submitted"
    by (rule dom_valuesToEncrypt)
next
  fix key val assume "submitted key = Some val"
  then show "valuesToEncrypt existingData submitted key = Some val"
    by (simp add: valuesToEncrypt_apply)
next
  fix key assume "submitted key = None"
  then show "valuesToEncrypt existingData submitted key = existingData key"
    by (simp add: valuesToEncrypt_apply)
next
  assume a: "getSecretData w (optNamespace opts) (optSecretName opts) = Inr existingData
        \<and> optValues opts = submitted
        \<and> getPublicKey w = Inr pk
        \<and> set (valuesOrder w) = dom (valuesToEncrypt existingData submitted)
        \<and> CreateSealedSecret_record s w opts h = Inr (sealedSecret, h')"
  let ?req = "encryptRequestFor pk opts existingData"
  from a CreateSealedSecret_record_Inr [of s w opts h sealedSecret h']
  have e: "encryptLoop w ?req (valuesOrder w) Map.empty = Inr (EncryptedData (Spec sealedSecret))"
    by (auto simp: encryptValues_def)
  have req: "values_of ?req = valuesToEncrypt existingData submitted" "pubKey ?req = pk"
    using a by (simp_all add: encryptRequestFor_def)
  note l = encryptLoop_success [OF e, unfolded req]
  show "dom (EncryptedData (Spec sealedSecret)) = dom existingData \<union> dom submitted"
  proof -
    have "dom (EncryptedData (Spec sealedSecret)) = dom (valuesToEncrypt existingData submitted)"
    proof (rule set_eqI)
      fix key
      from a have o: "key \<in> set (valuesOrder w) \<longleftrightarrow> valuesToEncrypt existingData submitted key \<noteq> None"
        by auto
      from l [of key] o
      show "key \<in> dom (EncryptedData (Spec sealedSecret)) \<longleftrightarrow> key \<in> dom (valuesToEncrypt existingData submitted)"
        by (auto simp: dom_def split: if_splits sum.splits)
    qed
    then show ?thesis by (simp add: dom_valuesToEncrypt)
  qed
next
  fix key val
  assume a: "getSecretData w (optNamespace opts) (optSecretName opts) = Inr existingData
        \<and> optValues opts = submitted
        \<and> getPublicKey w = Inr pk
        \<and> set (valuesOrder w) = dom (valuesToEncrypt existingData submitted)
        \<and> CreateSealedSecret_record s w opts h = Inr (sealedSecret, h')"
    and v: "valuesToEncrypt existingData submitted key = Some val"
  let ?req = "encryptRequestFor pk opts existingData"
  from a CreateSealedSecret_record_Inr [of s w opts h sealedSecret h']
  have e: "encryptLoop w ?req (valuesOrder w) Map.empty = Inr (EncryptedData (Spec sealedSecret))"
    by (auto simp: encryptValues_def)
  have req: "values_of ?req = valuesToEncrypt existingData submitted" "pubKey ?req = pk"
    using a by (simp_all add: encryptRequestFor_def)
  note l = encryptLoop_success [OF e, unfolded req]
  from a v have "key \<in> set (valuesOrder w)" by auto
  with l [of key] v
  show "\<exists>enc. hybridEncrypt w key pk val (getLabel ?req) = Inr enc
             \<and> EncryptedData (Spec sealedSecret) key = Some enc"
    by (auto split: sum.splits)
qed

lemmas sample_defs =
  sample_service_def sample_world_def sample_opts_def failing_world_def unreachable_world_def

lemmas pipeline_defs =
  CreateSealedSecret_def CreateSealedSecret_record_def getSecretData_def decodeSecret_def
  encryptValues_def encryptRequestFor_def valuesToEncrypt_def getSealedSecretAnnotations_def
  newMap_def copyStringMap_def getLabel_def

lemma sample_run:
  "CreateSealedSecret sample_service sample_world sample_opts [] = Inr ''SealedSecret''"
  by (simp add: sample_defs pipeline_defs)

text \<open>
  C3 (the code departs from it). When the read of the existing secret fails for a
  reason other than NotFound, \<open>getSecretData\<close> returns an empty mapping and no error,
  and \<open>CreateSealedSecret\<close> goes on to return a manifest: the failure does not reach
  the caller.
\<close>

theorem C3_read_failure_swallowed:
  "getSecretData unreachable_world ''prod'' ''db'' = Inr Map.empty
   \<and> CreateSealedSecret sample_service unreachable_world sample_opts [] = Inr ''SealedSecret''"
  by (simp add: sample_defs pipeline_defs)

text \<open>The sample run: the owner survives, the stale namespace-wide marker does not.\<close>

theorem C2_scope_control_annotations_witness:
  "CreateSealedSecret sample_service sample_world sample_opts [] = Inr ''SealedSecret''
   \<and> (\<exists>sealedSecret h'.
        CreateSealedSecret_record sample_service sample_world sample_opts [] = Inr (sealedSecret, h')
      \<and> mapAt h' (Annotations (SecretMetadata sealedSecret)) ''owner'' = Some ''team-x''
      \<and> mapAt h' (Annotations (SecretMetadata sealedSecret)) ''sealedsecrets.bitnami.com/namespace-wide'' = None
      \<and> mapAt h' (Annotations (SecretMetadata sealedSecret)) ''note'' = None)"
proof -
  from C2_scope_control_annotations [OF sample_run] obtain ss h' where
    r: "CreateSealedSecret_record sample_service sample_world sample_opts [] = Inr (ss, h')"
    and k: "\<And>key. mapAt h' (Annotations (SecretMetadata ss)) key =
         (if isScopeAnnotation key then getScopeAnnotations (optScope sample_opts) key
          else if key \<in> set (annotationsToPreserve sample_service)
          then (case sealedSecretsGet sample_world (optNamespace sample_opts) (optSecretName sample_opts) of
                  Inr stored \<Rightarrow> stored key
                | Inl err \<Rightarrow> None)
          else None)"
    by blast
  have "mapAt h' (Annotations (SecretMetadata ss)) ''owner'' = Some ''team-x''"
    by (simp add: k sample_defs isScopeAnnotation_def getScopeAnnotations_def)
  moreover have "mapAt h' (Annotations (SecretMetadata ss)) ''sealedsecrets.bitnami.com/namespace-wide'' = None"
    by (simp add: k sample_defs isScopeAnnotation_def getScopeAnnotations_def)
  moreover have "mapAt h' (Annotations (SecretMetadata ss)) ''note'' = None"
    by (simp add: k sample_defs isScopeAnnotation_def getScopeAnnotations_def)
  ultimately show ?thesis using r sample_run by blast
qed

theorem C10_template_annotations_witness:
  "CreateSealedSecret sample_service sample_world sample_opts [] = Inr ''SealedSecret''
   \<and> (\<exists>sealedSecret h'.
        CreateSealedSecret_record sample_service sample_world sample_opts [] = Inr (sealedSecret, h')
      \<and> mapAt h' (Annotations (TemplateMetadata (SpecTemplate (Spec sealedSecret)))) = Map.empty
      \<and> Annotations (TemplateMetadata (SpecTemplate (Spec sealedSecret)))
          \<noteq> Annotations (SecretMetadata sealedSecret)
      \<and> h' = [Map.empty, mapAt h' (Annotations (SecretMetadata sealedSecret))])"
proof -
  from C10_template_annotations [OF sample_run] obtain ss h' where
    "CreateSealedSecret_record sample_service sample_world sample_opts [] = Inr (ss, h')"
    "mapAt h' (Annotations (TemplateMetadata (SpecTemplate (Spec ss))))
        = getScopeAnnotations (optScope sample_opts)"
    "Annotations (TemplateMetadata (SpecTemplate (Spec ss))) \<noteq> Annotations (SecretMetadata ss)"
    "h' = [] @ [getScopeAnnotations (optScope sample_opts), mapAt h' (Annotations (SecretMetadata ss))]"
    by blast
  moreover have "getScopeAnnotations (optScope sample_opts) = Map.empty"
    by (simp add: sample_defs getScopeAnnotations_def)
  ultimately show ?thesis using sample_run by auto
qed

theorem C4_atomic_failure_witness:
  "getSecretData failing_world (optNamespace sample_opts) (optSecretName sample_opts)
      = Inr [''a'' \<mapsto> ''1'', ''b'' \<mapsto> ''2'']
   \<and> getPublicKey failing_world = Inr ()
   \<and> set (valuesOrder failing_world)
      = dom (valuesToEncrypt [''a'' \<mapsto> ''1'', ''b'' \<mapsto> ''2''] (optValues sample_opts))
   \<and> valuesToEncrypt [''a'' \<mapsto> ''1'', ''b'' \<mapsto> ''2''] (optValues sample_opts) ''a'' = Some ''1''
   \<and> hybridEncrypt failing_world ''a'' () ''1''
        (getLabel (encryptRequestFor () sample_opts [''a'' \<mapsto> ''1'', ''b'' \<mapsto> ''2'']))
      = Inl (New ''crypto/rsa: message too long for RSA key size'')
   \<and> (\<exists>err'. CreateSealedSecret_record sample_service failing_world sample_opts []
                = Inl (Wrapped ''failed to encrypt value'' err')
             \<and> CreateSealedSecret sample_service failing_world sample_opts []
                = Inl (Wrapped ''failed to encrypt value'' err'))"
proof -
  have 1: "getSecretData failing_world (optNamespace sample_opts) (optSecretName sample_opts)
      = Inr [''a'' \<mapsto> ''1'', ''b'' \<mapsto> ''2'']"
    by (simp add: sample_defs getSecretData_def decodeSecret_def)
  have 2: "getPublicKey failing_world = Inr ()"
    by (simp add: sample_defs)
  have 3: "set (valuesOrder failing_world)
      = dom (valuesToEncrypt [''a'' \<mapsto> ''1'', ''b'' \<mapsto> ''2''] (optValues sample_opts))"
    by (auto simp: sample_defs valuesToEncrypt_def)
  have 4: "valuesToEncrypt [''a'' \<mapsto> ''1'', ''b'' \<mapsto> ''2''] (optValues sample_opts) ''a'' = Some ''1''"
    by (simp add: sample_defs valuesToEncrypt_def map_add_def)
  have 5: "hybridEncrypt failing_world ''a'' () ''1''
        (getLabel (encryptRequestFor () sample_opts [''a'' \<mapsto> ''1'', ''b'' \<mapsto> ''2'']))
      = Inl (New ''crypto/rsa: message too long for RSA key size'')"
    by (simp add: sample_defs)
  from C4_atomic_failure [OF 1 2 3 4 5, of sample_service "[]"] 1 2 3 4 5
  show ?thesis by blast
qed

theorem C8_plaintext_merge_witness:
  "valuesToEncrypt [''a'' \<mapsto> ''1'', ''b'' \<mapsto> ''2''] [''b'' \<mapsto> ''3'', ''c'' \<mapsto> ''4'']
     = [''a'' \<mapsto> ''1'', ''b'' \<mapsto> ''3'', ''c'' \<mapsto> ''4'']
   \<and> (\<exists>sealedSecret h'.
        CreateSealedSecret_record sample_service sample_world sample_opts [] = Inr (sealedSecret, h')
      \<and> dom (EncryptedData (Spec sealedSecret)) = {''a'', ''b'', ''c''}
      \<and> EncryptedData (Spec sealedSecret) ''a'' = Some ''sealed[prod/db]1''
      \<and> EncryptedData (Spec sealedSecret) ''b'' = Some ''sealed[prod/db]3''
      \<and> EncryptedData (Spec sealedSecret) ''c'' = Some ''sealed[prod/db]4'')"
proof -
  let ?e = "[''a'' \<mapsto> ''1'', ''b'' \<mapsto> ''2'']" and ?n = "[''b'' \<mapsto> ''3'', ''c'' \<mapsto> ''4'']"
  note m = C8_plaintext_merge [of ?e ?n sample_world sample_opts "()" sample_service "[]"]
  have d: "dom ?e \<union> dom ?n = {''a'', ''b'', ''c''}" by auto
  have a: "valuesToEncrypt ?e ?n ''a'' = Some ''1''" using m by simp
  have b: "valuesToEncrypt ?e ?n ''b'' = Some ''3''" using m by simp
  have c: "valuesToEncrypt ?e ?n ''c'' = Some ''4''" using m by simp
  have "valuesToEncrypt ?e ?n key = [''a'' \<mapsto> ''1'', ''b'' \<mapsto> ''3'', ''c'' \<mapsto> ''4''] key" for key
  proof (cases "key \<in> {''a'', ''b'', ''c''}")
    case True
    with a b c show ?thesis by auto
  next
    case False
    with m d have "key \<notin> dom (valuesToEncrypt ?e ?n)" by simp
    with False show ?thesis by (auto simp: dom_def)
  qed
  then have eq: "valuesToEncrypt ?e ?n = [''a'' \<mapsto> ''1'', ''b'' \<mapsto> ''3'', ''c'' \<mapsto> ''4'']"
    by (rule ext)
  from CreateSealedSecret_Inr [OF sample_run] obtain ss h' where
    r: "CreateSealedSecret_record sample_service sample_world sample_opts [] = Inr (ss, h')"
    by blast
  have hyp: "getSecretData sample_world (optNamespace sample_opts) (optSecretName sample_opts) = Inr ?e
        \<and> optValues sample_opts = ?n
        \<and> getPublicKey sample_world = Inr ()
        \<and> set (valuesOrder sample_world) = dom (valuesToEncrypt ?e ?n)"
    using d by (auto simp: sample_defs getSecretData_def decodeSecret_def dom_valuesToEncrypt)
  have l: "getLabel (encryptRequestFor () sample_opts ?e) = ''prod/db''"
    by (simp add: getLabel_def encryptRequestFor_def sample_defs)
  from m [of ss h'] hyp r d
  have dd: "dom (EncryptedData (Spec ss)) = {''a'', ''b'', ''c''}"
    and enc: "\<And>key val. valuesToEncrypt ?e ?n key = Some val \<Longrightarrow>
               (\<exists>enc. hybridEncrypt sample_world key () val ''prod/db'' = Inr enc
                    \<and> EncryptedData (Spec ss) key = Some enc)"
    unfolding l by auto
  have "EncryptedData (Spec ss) ''a'' = Some ''sealed[prod/db]1''"
    using enc [OF a] by (simp add: sample_defs)
  moreover have "EncryptedData (Spec ss) ''b'' = Some ''sealed[prod/db]3''"
    using enc [OF b] by (simp add: sample_defs)
  moreover have "EncryptedData (Spec ss) ''c'' = Some ''sealed[prod/db]4''"
    using enc [OF c] by (simp add: sample_defs)
  ultimately show ?thesis using eq r dd by blast
qed

section \<open>Properties of the value parser\<close>

lemmas parser_defs =
  parseKeyValuePairs_def parseLine_def SplitN2_def CutPrefix_def CutSuffix_def
  HasPrefix_def HasSuffix_def escapedBacktick_def

lemmas spec_parser_defs = spec_parse_def spec_closes_def

lemma Split_no_separator: "sep \<notin> set s \<Longrightarrow> Split s sep = [s]"
  by (induction s) auto

text \<open>
  C5 (the code departs from it). The input that consists of the one line: separator,
  backtick, abc, opens a multi-line block under the empty key and ends with the block
  still open. The parser as the specification words it fails with the error of an
  unterminated value; \<open>parseKeyValuePairs\<close> returns an empty mapping and no error,
  because it tells an open block by a non-empty \<open>multilineKey\<close>.
\<close>

theorem C5_unclosed_block_accepted:
  "parseKeyValuePairs [equals, backtick, CHR ''a'', CHR ''b'', CHR ''c''] = Inr Map.empty
   \<and> spec_parse [equals, backtick, CHR ''a'', CHR ''b'', CHR ''c''] = Inl UnterminatedValue"
  by (simp add: parser_defs spec_parser_defs)

text \<open>
  C6 (the code departs from it). A value that begins with a backtick under the empty key
  does not open a block in the code. For the two lines: separator, backtick, x; and: y,
  backtick, the specification yields the value x, newline, y under the empty key, and the
  code fails at line 1 for a missing separator. And what such a line has written to the
  string builder stays there: followed by the line b, separator, backtick, y, backtick,
  the code yields xy under b.
\<close>

theorem C6_block_under_empty_key:
  "parseKeyValuePairs [equals, backtick, CHR ''x'', newline, CHR ''y'', backtick]
     = Inl (MissingEquals 1)
   \<and> spec_parse [equals, backtick, CHR ''x'', newline, CHR ''y'', backtick]
     = Inr [[] \<mapsto> [CHR ''x'', newline, CHR ''y'']]
   \<and> parseKeyValuePairs
        [equals, backtick, CHR ''x'', newline, CHR ''b'', equals, backtick, CHR ''y'', backtick]
     = Inr [''b'' \<mapsto> ''xy'']
   \<and> spec_parse
        [equals, backtick, CHR ''x'', newline, CHR ''b'', equals, backtick, CHR ''y'', backtick]
     = Inr [[] \<mapsto> [CHR ''x'', newline, CHR ''b'', equals, backtick, CHR ''y'']]"
  by (simp add: parser_defs spec_parser_defs)

text \<open>The two examples of the specification, where the key is not empty.\<close>

lemma C6_examples:
  "parseKeyValuePairs [CHR ''a'', equals, backtick, CHR ''x'', newline, CHR ''y'', backtick]
     = Inr [''a'' \<mapsto> [CHR ''x'', newline, CHR ''y'']]
   \<and> parseKeyValuePairs
        [CHR ''a'', equals, backtick, CHR ''x'', backslash, backtick, CHR ''y'', backtick]
     = Inr [''a'' \<mapsto> [CHR ''x'', backtick, CHR ''y'']]"
  by (simp add: parser_defs)

subsection \<open>The code against the parser of the specification\<close>

lemma spec_unescape_ReplaceAll:
  "spec_unescape s = ReplaceAll s escapedBacktick [backtick]"
  by (induction s rule: spec_unescape.induct) (auto simp: escapedBacktick_def)

lemma HasSuffix_append: "HasSuffix s t \<longleftrightarrow> (\<exists>p. s = p @ t)"
proof
  assume "HasSuffix s t"
  then have "s = take (length s - length t) s @ t"
    by (metis HasSuffix_def append_take_drop_id)
  then show "\<exists>p. s = p @ t" ..
next
  assume "\<exists>p. s = p @ t"
  then show "HasSuffix s t" by (auto simp: HasSuffix_def)
qed

lemma spec_closes_HasSuffix:
  "spec_closes line \<longleftrightarrow> \<not> HasSuffix line escapedBacktick \<and> HasSuffix line [backtick]"
proof (cases line rule: rev_cases)
  case Nil
  then show ?thesis by (simp add: spec_closes_def HasSuffix_def)
next
  case (snoc ys y)
  note s1 = snoc
  show ?thesis
  proof (cases ys rule: rev_cases)
    case Nil
    with s1 show ?thesis by (auto simp: spec_closes_def HasSuffix_def escapedBacktick_def)
  next
    case (snoc zs z)
    with s1 have l: "line = zs @ [z, y]" by simp
    have "line ! (length line - 2) = z" unfolding l by (simp add: nth_append)
    moreover have "last line = y" unfolding l by simp
    moreover have "HasSuffix line escapedBacktick \<longleftrightarrow> z = backslash \<and> y = backtick"
      unfolding l by (auto simp: HasSuffix_def escapedBacktick_def)
    moreover have "HasSuffix line [backtick] \<longleftrightarrow> y = backtick"
      unfolding l by (auto simp: HasSuffix_def)
    moreover have "2 \<le> length line" "line \<noteq> []" unfolding l by simp_all
    ultimately show ?thesis by (auto simp: spec_closes_def)
  qed
qed

lemma cut_close:
  "(if \<not> HasSuffix s escapedBacktick then CutSuffix s [backtick] else (s, False)) =
     (if spec_closes s then (butlast s, True) else (s, False))"
  by (auto simp: spec_closes_HasSuffix CutSuffix_def butlast_conv_take)

lemma CutPrefix_backtick:
  "CutPrefix v [backtick] = (if v \<noteq> [] \<and> hd v = backtick then (tl v, True) else (v, False))"
  by (cases v) (auto simp: CutPrefix_def HasPrefix_def)

lemma parseLine_refines:
  assumes "named s"
  shows "parseLine i line (parser_of s) = map_sum error_of parser_of (spec_line i line s)"
proof (cases s)
  case (Pair m b)
  show ?thesis
  proof (cases b)
    case Normal
    with Pair show ?thesis
      by (simp add: parseLine_def SplitN2_def CutPrefix_backtick cut_close
            spec_unescape_ReplaceAll Let_def)
  next
    case (InsideQuotedBlock key buf)
    with Pair assms show ?thesis
      by (simp add: parseLine_def cut_close spec_unescape_ReplaceAll Let_def)
  qed
qed

lemma parseLines_refines:
  "named_run i lines s \<Longrightarrow>
   parseLines i lines (parser_of s) = map_sum error_of parser_of (spec_lines i lines s)"
proof (induction lines arbitrary: i s)
  case Nil
  then show ?case by simp
next
  case (Cons line rest)
  then have n: "named s" by simp
  show ?case
  proof (cases "spec_line i line s")
    case (Inl err)
    then show ?thesis by (simp add: parseLine_refines [OF n])
  next
    case (Inr s')
    with Cons.prems have "named_run (Suc i) rest s'" by simp
    from Cons.IH [OF this] Inr show ?thesis by (simp add: parseLine_refines [OF n])
  qed
qed

lemma named_run_final:
  "named_run i lines s \<Longrightarrow> spec_lines i lines s = Inr s' \<Longrightarrow> named s'"
  by (induction lines arbitrary: i s) (auto split: sum.splits)

lemma Split_not_Nil: "Split s sep \<noteq> []"
  by (induction s) (auto split: list.splits)

lemma Split_single_empty: "Split s sep = [[]] \<longleftrightarrow> s = []"
  using Split_not_Nil [of "tl s" sep] by (cases s) (auto split: list.splits)

lemma single_empty_conv: "length ls = 1 \<and> length (ls ! 0) = 0 \<longleftrightarrow> ls = [[]]"
  by (cases ls) auto

lemma empty_test:
  "(length (Split s sep) = 1 \<and> length (Split s sep ! 0) = 0) = (s = [])"
  using single_empty_conv [of "Split s sep"] Split_single_empty [of s sep] by blast

text \<open>
  On every input whose run is named, the code and the parser of the specification agree:
  the same mapping, or the same kind of error at the same line. The block under the
  empty key is the only place where they part.
\<close>

theorem parseKeyValuePairs_refines_spec:
  assumes "named_run 0 (Split text newline) (Map.empty, Normal)"
  shows "parseKeyValuePairs text = map_sum error_of id (spec_parse text)"
proof (cases "text = []")
  case True
  then show ?thesis by (simp add: parseKeyValuePairs_def spec_parse_def)
next
  case False
  let ?lines = "Split text newline"
  note r = parseLines_refines [OF assms, simplified]
  have p: "parseKeyValuePairs text =
      (case parseLines 0 ?lines \<lparr>result = Map.empty, multilineKey = [], multilineValue = []\<rparr> of
           Inl err \<Rightarrow> Inl err
         | Inr st \<Rightarrow>
             if length (multilineKey st) \<noteq> 0 then Inl (New ''Backticked block is not closed'')
             else Inr (result st))"
    unfolding parseKeyValuePairs_def Let_def empty_test using False by simp
  show ?thesis
  proof (cases "spec_lines 0 ?lines (Map.empty, Normal)")
    case (Inl err)
    with r False show ?thesis
      by (simp add: p spec_parse_def)
  next
    case (Inr s')
    from named_run_final [OF assms Inr] have n: "named s'" .
    show ?thesis
    proof (cases s')
      case (Pair m b)
      with n Inr r False show ?thesis
        by (cases b) (simp_all add: p spec_parse_def)
    qed
  qed
qed

lemma spec_line_keeps_named:
  assumes "named s" and "\<not> HasPrefix line [equals, backtick]" and "spec_line i line s = Inr s'"
  shows "named s'"
proof (cases s)
  case (Pair m b)
  show ?thesis
  proof (cases b)
    case Normal
    show ?thesis
    proof (cases line)
      case Nil
      with Pair Normal assms(3) show ?thesis by simp
    next
      case (Cons c cs)
      with Pair Normal assms(2,3) show ?thesis
        by (cases cs) (auto simp: HasPrefix_def Let_def split: if_splits)
    qed
  next
    case (InsideQuotedBlock key buf)
    with Pair assms(1,3) show ?thesis by (auto split: if_splits)
  qed
qed

lemma named_run_syntactic:
  "named s \<Longrightarrow> \<forall>line \<in> set lines. \<not> HasPrefix line [equals, backtick] \<Longrightarrow> named_run i lines s"
proof (induction lines arbitrary: i s)
  case Nil
  then show ?case by simp
next
  case (Cons line rest)
  show ?case
  proof (cases "spec_line i line s")
    case (Inl err)
    with Cons.prems show ?thesis by simp
  next
    case (Inr s')
    from spec_line_keeps_named [OF Cons.prems(1) _ Inr] Cons.prems(2) have "named s'" by simp
    from Cons.IH [OF this] Cons.prems Inr show ?thesis by simp
  qed
qed

text \<open>A run is named, in particular, when no line begins with separator, backtick.\<close>

corollary parseKeyValuePairs_refines_spec_syntactic:
  assumes "\<forall>line \<in> set (Split text newline). \<not> HasPrefix line [equals, backtick]"
  shows "parseKeyValuePairs text = map_sum error_of id (spec_parse text)"
  using assms by (intro parseKeyValuePairs_refines_spec named_run_syntactic) simp_all

subsection \<open>Splitting a line at its first separator\<close>

lemma parseLines_append:
  "parseLines i (xs @ ys) st =
     (case parseLines i xs st of
        Inl err \<Rightarrow> Inl err
      | Inr st' \<Rightarrow> parseLines (i + length xs) ys st')"
  by (induction xs arbitrary: i st) (auto split: sum.splits)

lemma parseKeyValuePairs_parseRemaining:
  "text \<noteq> [] \<Longrightarrow>
   parseKeyValuePairs text =
     parseRemaining 0 (Split text newline)
       \<lparr>result = Map.empty, multilineKey = [], multilineValue = []\<rparr>"
  unfolding parseKeyValuePairs_def Let_def empty_test parseRemaining_def by simp

lemma parseLine_frame:
  assumes "parseLine i l st = Inr st'"
    and "takeWhile (\<lambda>c. c \<noteq> equals) l \<noteq> k"
    and "multilineKey st = [] \<or> multilineKey st \<noteq> k"
  shows "result st' k = result st k \<and> (multilineKey st' = [] \<or> multilineKey st' \<noteq> k)"
proof (cases "multilineKey st = []")
  case True
  with assms(1,2) show ?thesis
    by (auto simp: parseLine_def SplitN2_def Let_def split: if_splits prod.splits)
next
  case False
  with assms(3) have "multilineKey st \<noteq> k" by simp
  with False assms(1) show ?thesis
    by (auto simp: parseLine_def Let_def split: if_splits prod.splits)
qed

lemma parseLines_frame:
  "parseLines i ls st = Inr st' \<Longrightarrow>
   \<forall>l \<in> set ls. takeWhile (\<lambda>c. c \<noteq> equals) l \<noteq> k \<Longrightarrow>
   multilineKey st = [] \<or> multilineKey st \<noteq> k \<Longrightarrow>
   result st' k = result st k"
proof (induction ls arbitrary: i st)
  case Nil
  then show ?case by simp
next
  case (Cons l ls)
  from Cons.prems(1) obtain st1 where
    1: "parseLine i l st = Inr st1" and 2: "parseLines (Suc i) ls st1 = Inr st'"
    by (auto split: sum.splits)
  from parseLine_frame [OF 1 _ Cons.prems(3)] Cons.prems(2)
  have f: "result st1 k = result st k" "multilineKey st1 = [] \<or> multilineKey st1 \<noteq> k"
    by simp_all
  from Cons.IH [OF 2 _ f(2)] Cons.prems(2) f(1) show ?case by simp
qed

lemma parseRemaining_after:
  assumes "Split text newline = pre @ line # post"
    and "named_run 0 pre (Map.empty, Normal)"
    and "spec_lines 0 pre (Map.empty, Normal) = Inr (m, Normal)"
    and "equals \<in> set line"
    and "parseLine (length pre) line \<lparr>result = m, multilineKey = [], multilineValue = []\<rparr> = Inr st"
  shows "parseKeyValuePairs text = parseRemaining (Suc (length pre)) post st"
proof -
  have ne: "text \<noteq> []"
  proof
    assume "text = []"
    with assms(1) have "[[]] = pre @ line # post" by simp
    then have "line = []" by (cases pre) auto
    with assms(4) show False by simp
  qed
  have "parseLines 0 pre (parser_of (Map.empty, Normal)) = Inr (parser_of (m, Normal))"
    using parseLines_refines [OF assms(2)] assms(3) by simp
  then have p: "parseLines 0 pre \<lparr>result = Map.empty, multilineKey = [], multilineValue = []\<rparr>
      = Inr \<lparr>result = m, multilineKey = [], multilineValue = []\<rparr>"
    by simp
  show ?thesis
    unfolding parseKeyValuePairs_parseRemaining [OF ne] assms(1) parseRemaining_def
    by (simp add: parseLines_append p assms(5))
qed

lemma parseLine_plain:
  assumes "equals \<in> set line"
    and "\<not> HasPrefix (tl (dropWhile (\<lambda>c. c \<noteq> equals) line)) [backtick]"
  shows "parseLine i line \<lparr>result = m, multilineKey = [], multilineValue = []\<rparr> =
     Inr \<lparr>result = m(takeWhile (\<lambda>c. c \<noteq> equals) line \<mapsto> tl (dropWhile (\<lambda>c. c \<noteq> equals) line)),
          multilineKey = [], multilineValue = []\<rparr>"
  using assms by (simp add: parseLine_def SplitN2_def CutPrefix_def)

lemma parseLine_block:
  assumes "equals \<in> set line"
    and "HasPrefix (tl (dropWhile (\<lambda>c. c \<noteq> equals) line)) [backtick]"
  shows "parseLine i line \<lparr>result = m, multilineKey = [], multilineValue = []\<rparr> =
     Inr (if spec_closes (tl (tl (dropWhile (\<lambda>c. c \<noteq> equals) line)))
          then \<lparr>result = m(takeWhile (\<lambda>c. c \<noteq> equals) line
                        \<mapsto> spec_unescape (butlast (tl (tl (dropWhile (\<lambda>c. c \<noteq> equals) line))))),
                multilineKey = [], multilineValue = []\<rparr>
          else \<lparr>result = m, multilineKey = takeWhile (\<lambda>c. c \<noteq> equals) line,
                multilineValue = spec_unescape (tl (tl (dropWhile (\<lambda>c. c \<noteq> equals) line)))\<rparr>)"
proof -
  from assms(2) have v: "tl (dropWhile (\<lambda>c. c \<noteq> equals) line) \<noteq> []
      \<and> hd (tl (dropWhile (\<lambda>c. c \<noteq> equals) line)) = backtick"
    by (cases "tl (dropWhile (\<lambda>c. c \<noteq> equals) line)") (auto simp: HasPrefix_def)
  with assms(1) show ?thesis
    by (simp add: parseLine_def SplitN2_def CutPrefix_backtick cut_close
          spec_unescape_ReplaceAll Let_def)
qed

text \<open>
  C9 (as stated it fails). In the line a, separator, backtick, x, backtick the text
  after the first separator is backtick, x, backtick; the value the parser stores is x.
\<close>

theorem C9_first_separator_counterexample:
  "equals \<in> set [CHR ''a'', equals, backtick, CHR ''x'', backtick]
   \<and> tl (dropWhile (\<lambda>c. c \<noteq> equals) [CHR ''a'', equals, backtick, CHR ''x'', backtick])
       = [backtick, CHR ''x'', backtick]
   \<and> parseKeyValuePairs [CHR ''a'', equals, backtick, CHR ''x'', backtick] = Inr [''a'' \<mapsto> ''x'']
   \<and> parseKeyValuePairs [CHR ''a'', equals, backtick, CHR ''x'', backtick]
       \<noteq> Inr [''a'' \<mapsto> [backtick, CHR ''x'', backtick]]"
proof -
  have "[''a'' \<mapsto> ''x''] \<noteq> [''a'' \<mapsto> [backtick, CHR ''x'', backtick]]"
    by (auto dest: fun_cong [of _ _ "''a''"])
  then show ?thesis by (simp add: parser_defs)
qed

text \<open>
  C9 (amended). Take any input and any line of it that is outside a multi-line block:
  the lines before it, read from the start as the specification says, leave no block
  open (and give the mapping \<open>m\<close>), and none of them has opened a block under the
  empty key. If the line contains a separator, its key is exactly the text before the
  first separator, and:
  \<^item> if the text after the first separator does not begin with a backtick, that text is
    the value: the parser assigns it to the key, keeps the entries of the lines before,
    and goes on with the remaining lines from there; so the input that ends with this
    line yields \<open>m\<close> with that entry, and whenever the parse returns a mapping and no
    later line has the same text before its first separator, the mapping holds that
    value under that key. The value may thus contain further separators, the key may be
    empty, and neither is trimmed;
  \<^item> if the text after the first separator begins with a backtick, it is not the value:
    the line closes its block itself and assigns the unquoted text to the key, or it
    opens a block under the key (stated here for a key that is not empty).
\<close>

theorem C9_first_separator:
  assumes "Split data newline = pre @ line # post"
    and "named_run 0 pre (Map.empty, Normal)"
    and "spec_lines 0 pre (Map.empty, Normal) = Inr (m, Normal)"
    and "equals \<in> set line"
    and "key = takeWhile (\<lambda>c. c \<noteq> equals) line"
    and "val = tl (dropWhile (\<lambda>c. c \<noteq> equals) line)"
  shows "(\<not> HasPrefix val [backtick] \<longrightarrow>
            parseKeyValuePairs data =
              parseRemaining (Suc (length pre)) post
                \<lparr>result = m(key \<mapsto> val), multilineKey = [], multilineValue = []\<rparr>
          \<and> (post = [] \<longrightarrow> parseKeyValuePairs data = Inr (m(key \<mapsto> val)))
          \<and> (\<forall>r. parseKeyValuePairs data = Inr r
                  \<and> (\<forall>l \<in> set post. takeWhile (\<lambda>c. c \<noteq> equals) l \<noteq> key)
                \<longrightarrow> r key = Some val))
       \<and> (HasPrefix val [backtick] \<and> spec_closes (tl val) \<longrightarrow>
            parseKeyValuePairs data =
              parseRemaining (Suc (length pre)) post
                \<lparr>result = m(key \<mapsto> spec_unescape (butlast (tl val))),
                 multilineKey = [], multilineValue = []\<rparr>)
       \<and> (HasPrefix val [backtick] \<and> \<not> spec_closes (tl val) \<and> key \<noteq> [] \<longrightarrow>
            parseKeyValuePairs data =
              parseRemaining (Suc (length pre)) post
                \<lparr>result = m, multilineKey = key, multilineValue = spec_unescape (tl val)\<rparr>)"
proof (intro conjI impI allI)
  assume nb: "\<not> HasPrefix val [backtick]"
  let ?st = "\<lparr>result = m(key \<mapsto> val), multilineKey = [], multilineValue = []\<rparr>"
  have l: "parseLine (length pre) line \<lparr>result = m, multilineKey = [], multilineValue = []\<rparr> = Inr ?st"
    using parseLine_plain [where line = line and m = m and i = "length pre"] assms(4) nb unfolding assms(5,6) by simp
  show a: "parseKeyValuePairs data = parseRemaining (Suc (length pre)) post ?st"
    by (rule parseRemaining_after [OF assms(1-4) l])
  {
    assume "post = []"
    with a show "parseKeyValuePairs data = Inr (m(key \<mapsto> val))"
      by (simp add: parseRemaining_def)
  }
  {
    fix r
    assume h: "parseKeyValuePairs data = Inr r
                  \<and> (\<forall>l \<in> set post. takeWhile (\<lambda>c. c \<noteq> equals) l \<noteq> key)"
    with a obtain st' where
      1: "parseLines (Suc (length pre)) post ?st = Inr st'" and 2: "r = result st'"
      by (auto simp: parseRemaining_def split: sum.splits if_splits)
    from parseLines_frame [OF 1, of key] h have "result st' key = result ?st key" by simp
    with 2 show "r key = Some val" by simp
  }
next
  assume b: "HasPrefix val [backtick] \<and> spec_closes (tl val)"
  have "parseLine (length pre) line \<lparr>result = m, multilineKey = [], multilineValue = []\<rparr> =
      Inr \<lparr>result = m(key \<mapsto> spec_unescape (butlast (tl val))),
           multilineKey = [], multilineValue = []\<rparr>"
    using parseLine_block [where line = line and m = m and i = "length pre"] assms(4) b unfolding assms(5,6) by simp
  from parseRemaining_after [OF assms(1-4) this]
  show "parseKeyValuePairs data =
      parseRemaining (Suc (length pre)) post
        \<lparr>result = m(key \<mapsto> spec_unescape (butlast (tl val))),
         multilineKey = [], multilineValue = []\<rparr>" .
next
  assume b: "HasPrefix val [backtick] \<and> \<not> spec_closes (tl val) \<and> key \<noteq> []"
  have "parseLine (length pre) line \<lparr>result = m, multilineKey = [], multilineValue = []\<rparr> =
      Inr \<lparr>result = m, multilineKey = key, multilineValue = spec_unescape (tl val)\<rparr>"
    using parseLine_block [where line = line and m = m and i = "length pre"] assms(4) b unfolding assms(5,6) by simp
  from parseRemaining_after [OF assms(1-4) this]
  show "parseKeyValuePairs data =
      parseRemaining (Suc (length pre)) post
        \<lparr>result = m, multilineKey = key, multilineValue = spec_unescape (tl val)\<rparr>" .
qed

theorem C9_first_separator_witness:
  "parseKeyValuePairs
     ([CHR ''a'', equals, backtick, CHR ''x'', newline, CHR ''y'', backtick, newline]
        @ ''url=p=q'' @ [newline] @ ''b=2'')
     = Inr [''a'' \<mapsto> [CHR ''x'', newline, CHR ''y''], ''url'' \<mapsto> ''p=q'', ''b'' \<mapsto> ''2'']
   \<and> parseKeyValuePairs (''k=1'' @ [newline] @ ''=v'') = Inr [''k'' \<mapsto> ''1'', [] \<mapsto> ''v'']
   \<and> parseKeyValuePairs (''k=1'' @ [newline] @ '' k = v '')
       = Inr [''k'' \<mapsto> ''1'', '' k '' \<mapsto> '' v '']
   \<and> parseKeyValuePairs (''k=1'' @ [newline] @ [CHR ''j'', equals, backtick, CHR ''v'', backtick])
       = Inr [''k'' \<mapsto> ''1'', ''j'' \<mapsto> ''v'']
   \<and> parseKeyValuePairs
       (''k=1'' @ [newline] @ [CHR ''j'', equals, backtick, CHR ''v'', newline, CHR ''w'', backtick])
       = Inr [''k'' \<mapsto> ''1'', ''j'' \<mapsto> [CHR ''v'', newline, CHR ''w'']]"
proof -
  note ev = parseRemaining_def parseLine_def SplitN2_def CutPrefix_def CutSuffix_def
    HasPrefix_def HasSuffix_def escapedBacktick_def
  have "parseKeyValuePairs
     ([CHR ''a'', equals, backtick, CHR ''x'', newline, CHR ''y'', backtick, newline]
        @ ''url=p=q'' @ [newline] @ ''b=2'')
     = Inr [''a'' \<mapsto> [CHR ''x'', newline, CHR ''y''], ''url'' \<mapsto> ''p=q'', ''b'' \<mapsto> ''2'']"
  proof -
    let ?pre = "[[CHR ''a'', equals, backtick, CHR ''x''], [CHR ''y'', backtick]]"
    have s: "Split ([CHR ''a'', equals, backtick, CHR ''x'', newline, CHR ''y'', backtick, newline]
        @ ''url=p=q'' @ [newline] @ ''b=2'') newline = ?pre @ ''url=p=q'' # [''b=2'']"
      by simp
    have n: "named_run 0 ?pre (Map.empty, Normal)" by (simp add: spec_closes_def)
    have m: "spec_lines 0 ?pre (Map.empty, Normal)
        = Inr ([''a'' \<mapsto> [CHR ''x'', newline, CHR ''y'']], Normal)"
      by (simp add: spec_closes_def)
    have e: "equals \<in> set ''url=p=q''" by simp
    have k: "''url'' = takeWhile (\<lambda>c. c \<noteq> equals) ''url=p=q''" by simp
    have v: "''p=q'' = tl (dropWhile (\<lambda>c. c \<noteq> equals) ''url=p=q'')" by simp
    have nb: "\<not> HasPrefix ''p=q'' [backtick]" by (simp add: HasPrefix_def)
    have r: "parseRemaining (Suc (length ?pre)) [''b=2'']
         \<lparr>result = [''a'' \<mapsto> [CHR ''x'', newline, CHR ''y''], ''url'' \<mapsto> ''p=q''],
          multilineKey = [], multilineValue = []\<rparr>
       = Inr [''a'' \<mapsto> [CHR ''x'', newline, CHR ''y''], ''url'' \<mapsto> ''p=q'', ''b'' \<mapsto> ''2'']"
      by (simp add: ev)
    from C9_first_separator [OF s n m e k v] nb
    have "parseKeyValuePairs
       ([CHR ''a'', equals, backtick, CHR ''x'', newline, CHR ''y'', backtick, newline]
          @ ''url=p=q'' @ [newline] @ ''b=2'')
       = parseRemaining (Suc (length ?pre)) [''b=2'']
           \<lparr>result = [''a'' \<mapsto> [CHR ''x'', newline, CHR ''y''], ''url'' \<mapsto> ''p=q''],
            multilineKey = [], multilineValue = []\<rparr>"
      by blast
    then show ?thesis using r by (rule trans)
  qed
  moreover
  have s1: "spec_lines 0 [''k=1''] (Map.empty, Normal) = Inr ([''k'' \<mapsto> ''1''], Normal)"
    and n1: "named_run 0 [''k=1''] (Map.empty, Normal)"
    by simp_all
  have "parseKeyValuePairs (''k=1'' @ [newline] @ ''=v'') = Inr [''k'' \<mapsto> ''1'', [] \<mapsto> ''v'']"
  proof -
    have s: "Split (''k=1'' @ [newline] @ ''=v'') newline = [''k=1''] @ ''=v'' # []" by simp
    have e: "equals \<in> set ''=v''" by simp
    have k: "[] = takeWhile (\<lambda>c. c \<noteq> equals) ''=v''" by simp
    have v: "''v'' = tl (dropWhile (\<lambda>c. c \<noteq> equals) ''=v'')" by simp
    have nb: "\<not> HasPrefix ''v'' [backtick]" by (simp add: HasPrefix_def)
    from C9_first_separator [OF s n1 s1 e k v] nb show ?thesis by blast
  qed
  moreover
  have "parseKeyValuePairs (''k=1'' @ [newline] @ '' k = v '')
       = Inr [''k'' \<mapsto> ''1'', '' k '' \<mapsto> '' v '']"
  proof -
    have s: "Split (''k=1'' @ [newline] @ '' k = v '') newline = [''k=1''] @ '' k = v '' # []"
      by simp
    have e: "equals \<in> set '' k = v ''" by simp
    have k: "'' k '' = takeWhile (\<lambda>c. c \<noteq> equals) '' k = v ''" by simp
    have v: "'' v '' = tl (dropWhile (\<lambda>c. c \<noteq> equals) '' k = v '')" by simp
    have nb: "\<not> HasPrefix '' v '' [backtick]" by (simp add: HasPrefix_def)
    from C9_first_separator [OF s n1 s1 e k v] nb show ?thesis by blast
  qed
  moreover
  have "parseKeyValuePairs (''k=1'' @ [newline] @ [CHR ''j'', equals, backtick, CHR ''v'', backtick])
       = Inr [''k'' \<mapsto> ''1'', ''j'' \<mapsto> ''v'']"
  proof -
    let ?line = "[CHR ''j'', equals, backtick, CHR ''v'', backtick]"
    have s: "Split (''k=1'' @ [newline] @ ?line) newline = [''k=1''] @ ?line # []" by simp
    have e: "equals \<in> set ?line" by simp
    have k: "''j'' = takeWhile (\<lambda>c. c \<noteq> equals) ?line" by simp
    have v: "[backtick, CHR ''v'', backtick] = tl (dropWhile (\<lambda>c. c \<noteq> equals) ?line)" by simp
    have b: "HasPrefix [backtick, CHR ''v'', backtick] [backtick]
        \<and> spec_closes (tl [backtick, CHR ''v'', backtick])"
      by (simp add: HasPrefix_def spec_closes_def)
    have r: "parseRemaining (Suc (length [''k=1''])) []
         \<lparr>result = [''k'' \<mapsto> ''1'', ''j'' \<mapsto> spec_unescape (butlast (tl [backtick, CHR ''v'', backtick]))],
          multilineKey = [], multilineValue = []\<rparr>
       = Inr [''k'' \<mapsto> ''1'', ''j'' \<mapsto> ''v'']"
      by (simp add: ev)
    from C9_first_separator [OF s n1 s1 e k v] b
    have "parseKeyValuePairs (''k=1'' @ [newline] @ ?line)
       = parseRemaining (Suc (length [''k=1''])) []
         \<lparr>result = [''k'' \<mapsto> ''1'', ''j'' \<mapsto> spec_unescape (butlast (tl [backtick, CHR ''v'', backtick]))],
          multilineKey = [], multilineValue = []\<rparr>"
      by blast
    then show ?thesis using r by (rule trans)
  qed
  moreover
  have "parseKeyValuePairs
       (''k=1'' @ [newline] @ [CHR ''j'', equals, backtick, CHR ''v'', newline, CHR ''w'', backtick])
       = Inr [''k'' \<mapsto> ''1'', ''j'' \<mapsto> [CHR ''v'', newline, CHR ''w'']]"
  proof -
    let ?line = "[CHR ''j'', equals, backtick, CHR ''v'']"
    have s: "Split (''k=1'' @ [newline] @ [CHR ''j'', equals, backtick, CHR ''v'', newline, CHR ''w'', backtick]) newline
        = [''k=1''] @ ?line # [[CHR ''w'', backtick]]"
      by simp
    have e: "equals \<in> set ?line" by simp
    have k: "''j'' = takeWhile (\<lambda>c. c \<noteq> equals) ?line" by simp
    have v: "[backtick, CHR ''v''] = tl (dropWhile (\<lambda>c. c \<noteq> equals) ?line)" by simp
    have b: "HasPrefix [backtick, CHR ''v''] [backtick]
        \<and> \<not> spec_closes (tl [backtick, CHR ''v'']) \<and> ''j'' \<noteq> []"
      by (simp add: HasPrefix_def spec_closes_def)
    have r: "parseRemaining (Suc (length [''k=1''])) [[CHR ''w'', backtick]]
         \<lparr>result = [''k'' \<mapsto> ''1''], multilineKey = ''j'',
          multilineValue = spec_unescape (tl [backtick, CHR ''v''])\<rparr>
       = Inr [''k'' \<mapsto> ''1'', ''j'' \<mapsto> [CHR ''v'', newline, CHR ''w'']]"
      by (simp add: ev)
    from C9_first_separator [OF s n1 s1 e k v] b
    have "parseKeyValuePairs
         (''k=1'' @ [newline] @ [CHR ''j'', equals, backtick, CHR ''v'', newline, CHR ''w'', backtick])
       = parseRemaining (Suc (length [''k=1''])) [[CHR ''w'', backtick]]
         \<lparr>result = [''k'' \<mapsto> ''1''], multilineKey = ''j'',
          multilineValue = spec_unescape (tl [backtick, CHR ''v''])\<rparr>"
      by blast
    then show ?thesis using r by (rule trans)
  qed
  ultimately show ?thesis by blast
qed

end
